theory Spec2Isabelle
  imports Complex_Main "HOL-Library.Word" "HOL-Library.Sublist" "HOL-Library.Log_Nat"
begin

chapter \<open>homebridge-seam: lock accessories, polling, webhooks and commands\<close>

text \<open>
  A shallow embedding of the plugin's JavaScript: \<^verbatim>\<open>LockAccessory\<close> (lockAccessory.js),
  \<^verbatim>\<open>SeamAPI\<close> (seamapi.js), \<^verbatim>\<open>SeamPlatform\<close> (platform.js) and \<^verbatim>\<open>WebhookServer\<close>
  (webhookServer.js). Objects are records, mutation is state passing, an exception is the
  \<open>Inl\<close> branch of a sum, \<^verbatim>\<open>Date.now()\<close> and the remote service are arguments.
\<close>

section \<open>JavaScript values\<close>

text \<open>
  A JavaScript number that holds a time in milliseconds: \<^verbatim>\<open>new Date(x).getTime()\<close> is an
  integer or \<^verbatim>\<open>NaN\<close> (an invalid date). A property that was never assigned is
  \<^verbatim>\<open>undefined\<close>, modelled as \<open>None\<close>.
\<close>

datatype jsnum = NaN | Num int

text \<open>Truthiness of a number-valued property: \<^verbatim>\<open>undefined\<close>, \<^verbatim>\<open>NaN\<close> and \<^verbatim>\<open>0\<close> are falsy.\<close>

fun truthy_num :: "jsnum option \<Rightarrow> bool" where
  "truthy_num None = False"
| "truthy_num (Some NaN) = False"
| "truthy_num (Some (Num n)) = (n \<noteq> 0)"

text \<open>\<^verbatim>\<open>a <= b\<close> on numbers: false as soon as one side is \<^verbatim>\<open>NaN\<close> or \<^verbatim>\<open>undefined\<close>.\<close>

fun js_le :: "jsnum \<Rightarrow> jsnum option \<Rightarrow> bool" where
  "js_le (Num a) (Some (Num b)) = (a \<le> b)"
| "js_le _ _ = False"

text \<open>Truthiness of a string-valued property: absent and the empty string are falsy.\<close>

fun truthy_str :: "string option \<Rightarrow> bool" where
  "truthy_str None = False"
| "truthy_str (Some s) = (s \<noteq> [])"

text \<open>\<^verbatim>\<open>a || b\<close> on string-valued properties.\<close>

definition js_or :: "string option \<Rightarrow> string option \<Rightarrow> string option" where
  "js_or a b = (if truthy_str a then a else b)"

text \<open>
  A JavaScript number that holds a battery level: a double, as \<^verbatim>\<open>JSON.parse\<close> returns it
  or as \<^verbatim>\<open>* 100\<close> and \<^verbatim>\<open>Math.round\<close> compute it. \<open>Finite x\<close> is the double whose value is
  the rational \<open>x\<close> (\<open>0\<close> and \<open>-0\<close> are both \<open>Finite 0\<close>: they are equal, and both falsy);
  a literal or a product beyond the range of the doubles is an infinity. None of the
  operations below yields \<^verbatim>\<open>NaN\<close> from these values.
\<close>

datatype number = NegInfinity | Finite rat | PosInfinity

text \<open>\<^verbatim>\<open>a < b\<close> and \<^verbatim>\<open>a <= b\<close> on these numbers; comparisons are exact.\<close>

fun number_less :: "number \<Rightarrow> number \<Rightarrow> bool" where
  "number_less NegInfinity b = (b \<noteq> NegInfinity)"
| "number_less (Finite a) NegInfinity = False"
| "number_less (Finite a) (Finite b) = (a < b)"
| "number_less (Finite a) PosInfinity = True"
| "number_less PosInfinity b = False"

definition number_le :: "number \<Rightarrow> number \<Rightarrow> bool" where
  "number_le a b = (a = b \<or> number_less a b)"

text \<open>
  Arithmetic on doubles rounds: the result of an operation is the double nearest to the
  exact result, a tie going to the double whose last mantissa bit is even (IEEE 754,
  binary64: 53 bits of mantissa, exponents from -1022 to 1023, subnormal numbers below).
  \<open>pow2 e\<close> is \<open>2\<close> to the power \<open>e\<close>; \<open>exponent x\<close>, for a positive \<open>x\<close>, is the \<open>e\<close> with
  \<open>pow2 e \<le> x < pow2 (e + 1)\<close>; the doubles between these two powers are \<open>pow2 (e - 52)\<close>
  apart. \<open>round_double x\<close> is the double nearest to the rational \<open>x\<close>, an infinity when the
  rounded magnitude reaches \<open>pow2 1024\<close>. It is also how \<^verbatim>\<open>JSON.parse\<close> reads a decimal
  literal: \<open>round_double (3 / 200)\<close> is the number \<^verbatim>\<open>0.015\<close>.
\<close>

definition pow2 :: "int \<Rightarrow> rat" where
  "pow2 e = (if 0 \<le> e then of_int (2 ^ nat e) else 1 / of_int (2 ^ nat (- e)))"

definition exponent :: "rat \<Rightarrow> int" where
  "exponent x =
     (let (p, q) = quotient_of x; e = bitlen p - bitlen q
      in if x < pow2 e then e - 1 else e)"

definition round_half_even :: "rat \<Rightarrow> int" where
  "round_half_even q =
     (let n = \<lfloor>q\<rfloor>; r = q - of_int n
      in if r < 1 / 2 then n else if 1 / 2 < r then n + 1 else if even n then n else n + 1)"

definition round_double :: "rat \<Rightarrow> number" where
  "round_double x =
     (if x = 0 then Finite 0
      else
        let m = \<bar>x\<bar>;
            e = max (exponent m) (- 1022);
            ulp = pow2 (e - 52);
            y = of_int (round_half_even (m / ulp)) * ulp
        in if pow2 1024 \<le> y then (if 0 < x then PosInfinity else NegInfinity)
           else Finite (if 0 < x then y else - y))"

text \<open>\<^verbatim>\<open>x * 100\<close>\<close>

fun times_100 :: "number \<Rightarrow> number" where
  "times_100 NegInfinity = NegInfinity"
| "times_100 (Finite v) = round_double (v * 100)"
| "times_100 PosInfinity = PosInfinity"

text \<open>
  \<^verbatim>\<open>Math.round\<close>: the integer nearest to its argument, a tie going up; it is exact (the
  nearest integer to a double is a double), and an infinity is returned as it is.
\<close>

fun js_round :: "number \<Rightarrow> number" where
  "js_round NegInfinity = NegInfinity"
| "js_round (Finite x) = Finite (of_int \<lfloor>x + 1 / 2\<rfloor>)"
| "js_round PosInfinity = PosInfinity"

datatype js_error = RemoteError | TypeError | RangeError | ListenError | HapStatusError

section \<open>LockAccessory\<close>

text \<open>
  The fields of a \<^verbatim>\<open>LockAccessory\<close> object. \<open>contactService\<close> tells whether the contact
  sensor service exists (it is \<^verbatim>\<open>null\<close> otherwise); the \<open>hk\<close> fields are the values last
  pushed to the HomeKit characteristics with \<^verbatim>\<open>updateValue\<close> (\<open>True\<close> is SECURED,
  BATTERY_LEVEL_LOW, CONTACT_NOT_DETECTED); \<open>lastEventTime\<close> is the property the webhook
  server reads and writes, never assigned by the constructor.
\<close>

record accessory =
  deviceId :: string
  isLocked :: bool
  batteryLevel :: number
  isLowBattery :: bool
  isDoorOpen :: bool
  supportsDoorSensor :: bool
  contactService :: bool
  isCommandInProgress :: bool
  cacheLevel :: number
  cacheIsLow :: bool
  cacheLastUpdated :: int
  lastEventTime :: "jsnum option"
  hkLockCurrentState :: bool
  hkLockTargetState :: bool
  hkBatteryLevel :: number
  hkStatusLowBattery :: bool
  hkContactSensorState :: bool

text \<open>
  A status object: what \<^verbatim>\<open>getLockStatus\<close> returns and what the update functions receive.
  A field is \<open>None\<close> when the property is absent or not of the type the reader tests for
  (\<^verbatim>\<open>typeof state.locked === 'boolean'\<close>, \<^verbatim>\<open>typeof state.battery_level === 'number'\<close>).
\<close>

record lock_status =
  locked :: "bool option"
  battery_level :: "number option"
  online :: "bool option"
  door_open :: "bool option"

text \<open>\<^verbatim>\<open>updateBatteryCache(level, isLow)\<close>, with \<^verbatim>\<open>Date.now()\<close> as \<open>now\<close>.\<close>

definition updateBatteryCache :: "int \<Rightarrow> number \<Rightarrow> bool \<Rightarrow> accessory \<Rightarrow> accessory" where
  "updateBatteryCache now level isLow a =
     a\<lparr>cacheLevel := level, cacheIsLow := isLow, cacheLastUpdated := now\<rparr>"

text \<open>The three blocks of \<^verbatim>\<open>updateState\<close> after its guard, in the source's order.\<close>

definition updateLock :: "lock_status \<Rightarrow> accessory \<Rightarrow> accessory" where
  "updateLock st a =
     (case locked st of
        Some l \<Rightarrow>
          if l \<noteq> isLocked a
          then a\<lparr>isLocked := l, hkLockCurrentState := l, hkLockTargetState := l\<rparr>
          else a
      | None \<Rightarrow> a)"

definition updateBattery :: "int \<Rightarrow> lock_status \<Rightarrow> accessory \<Rightarrow> accessory" where
  "updateBattery now st a =
     (case battery_level st of
        Some b \<Rightarrow>
          if b \<noteq> batteryLevel a
          then (updateBatteryCache now b (number_less b (Finite 20))
                  (a\<lparr>batteryLevel := b, isLowBattery := number_less b (Finite 20)\<rparr>))
                 \<lparr>hkBatteryLevel := b, hkStatusLowBattery := number_less b (Finite 20)\<rparr>
          else a
      | None \<Rightarrow> a)"

definition updateDoor :: "lock_status \<Rightarrow> accessory \<Rightarrow> accessory" where
  "updateDoor st a =
     (case door_open st of
        Some d \<Rightarrow>
          if contactService a \<and> d \<noteq> isDoorOpen a
          then a\<lparr>isDoorOpen := d, hkContactSensorState := d\<rparr>
          else a
      | None \<Rightarrow> a)"

text \<open>
  \<^verbatim>\<open>LockAccessory.updateState(state)\<close>: the whole update is skipped while a command is in
  progress; the \<open>online\<close> field of the status is never read.
\<close>

definition updateState :: "int \<Rightarrow> lock_status \<Rightarrow> accessory \<Rightarrow> accessory" where
  "updateState now st a =
     (if isCommandInProgress a then a
      else updateDoor st (updateBattery now st (updateLock st a)))"

section \<open>SeamAPI.getLockStatus\<close>

text \<open>
  The device object the remote service returns. \<open>properties\<close> may be missing
  (\<^verbatim>\<open>device.properties?.x\<close>), and so may each property.
\<close>

record device_properties =
  prop_locked :: "bool option"
  prop_battery_level :: "number option"
  prop_online :: "bool option"
  prop_door_open :: "bool option"

record device =
  properties :: "device_properties option"

text \<open>\<^verbatim>\<open>device.properties?.battery_level\<close>\<close>

definition remote_battery_level :: "device \<Rightarrow> number option" where
  "remote_battery_level d =
     (case properties d of None \<Rightarrow> None | Some p \<Rightarrow> prop_battery_level p)"

text \<open>
  \<^verbatim>\<open>let batteryLevel = device.properties?.battery_level || 100;
  if (batteryLevel <= 1) batteryLevel = Math.round(batteryLevel * 100);\<close>
  A missing level and the level \<^verbatim>\<open>0\<close> are both falsy; the property is a number when it
  is present.
\<close>

definition convertBatteryLevel :: "number option \<Rightarrow> number" where
  "convertBatteryLevel r =
     (let batteryLevel = (case r of None \<Rightarrow> Finite 100
                          | Some v \<Rightarrow> if v = Finite 0 then Finite 100 else v)
      in if number_le batteryLevel (Finite 1) then js_round (times_100 batteryLevel)
         else batteryLevel)"

text \<open>\<^verbatim>\<open>x || false\<close> on a boolean property.\<close>

definition or_false :: "bool option \<Rightarrow> bool" where
  "or_false b = (case b of None \<Rightarrow> False | Some v \<Rightarrow> v)"

text \<open>
  \<^verbatim>\<open>SeamAPI.getLockStatus\<close>; the argument is the outcome of \<^verbatim>\<open>await this.getDevice(id)\<close>:
  an error, or \<^verbatim>\<open>response.device\<close>, which may be \<^verbatim>\<open>undefined\<close> (reading a property of it
  then throws a TypeError). Every error is logged and thrown again.
\<close>

definition getLockStatus :: "js_error + device option \<Rightarrow> js_error + lock_status" where
  "getLockStatus r =
     (case r of
        Inl e \<Rightarrow> Inl e
      | Inr None \<Rightarrow> Inl TypeError
      | Inr (Some d) \<Rightarrow>
          Inr \<lparr>locked = Some (or_false (case properties d of None \<Rightarrow> None | Some p \<Rightarrow> prop_locked p)),
               battery_level = Some (convertBatteryLevel (remote_battery_level d)),
               online = Some (or_false (case properties d of None \<Rightarrow> None | Some p \<Rightarrow> prop_online p)),
               door_open = Some (or_false (case properties d of None \<Rightarrow> None | Some p \<Rightarrow> prop_door_open p))\<rparr>)"

section \<open>Hexadecimal strings and buffers\<close>

type_synonym byte = "8 word"

text \<open>\<^verbatim>\<open>digest('hex')\<close>: two lower-case digits for each byte.\<close>

definition hex_digit :: "nat \<Rightarrow> char" where
  "hex_digit n = ''0123456789abcdef'' ! (n mod 16)"

definition hex_encode :: "byte list \<Rightarrow> string" where
  "hex_encode bs = concat (map (\<lambda>b. [hex_digit (unat b div 16), hex_digit (unat b mod 16)]) bs)"

text \<open>
  \<^verbatim>\<open>Buffer.from(s, 'hex')\<close> as Node.js documents it: digits of either case are read two
  at a time, and the data is cut at the first pair that is not two hexadecimal digits
  (\<^verbatim>\<open>Buffer.from('1ag123', 'hex')\<close> is the one byte \<^verbatim>\<open>1a\<close>, and so is
  \<^verbatim>\<open>Buffer.from('1a7', 'hex')\<close>).
\<close>

definition unhex :: "char \<Rightarrow> nat option" where
  "unhex c = map_of (zip ''0123456789abcdefABCDEF'' ([0..<16] @ [10..<16])) c"

fun hex_decode :: "string \<Rightarrow> byte list" where
  "hex_decode (a # b # rest) =
     (case unhex a of
        None \<Rightarrow> []
      | Some x \<Rightarrow> (case unhex b of
                    None \<Rightarrow> []
                  | Some y \<Rightarrow> of_nat (x * 16 + y) # hex_decode rest))"
| "hex_decode _ = []"

text \<open>\<^verbatim>\<open>s.replace(pat, '')\<close> with a string pattern: the first occurrence is removed.\<close>

fun remove_first :: "string \<Rightarrow> string \<Rightarrow> string" where
  "remove_first pat [] = []"
| "remove_first pat (c # cs) =
     (if prefix pat (c # cs) then drop (length pat) (c # cs) else c # remove_first pat cs)"

section \<open>WebhookServer: signature, request handling, event processing\<close>

text \<open>
  The fields of a \<^verbatim>\<open>WebhookServer\<close>; \<open>config_url\<close> and \<open>config_enabled\<close> are
  \<^verbatim>\<open>this.config.url\<close> and \<^verbatim>\<open>this.config.enabled\<close>, \<open>listening\<close> tells whether
  \<^verbatim>\<open>this.server\<close> is set.
\<close>

record webhook_server =
  path :: "string option"
  secret :: "string option"
  webhookUrl :: "string option"
  webhookId :: "nat option"
  config_url :: "string option"
  config_enabled :: bool
  listening :: bool

text \<open>
  \<^verbatim>\<open>verifySignature(payload, signature)\<close>. \<open>hmac\<close> stands for
  \<^verbatim>\<open>crypto.createHmac('sha256', secret).update(payload, 'utf8').digest()\<close>, the digest as
  bytes. \<^verbatim>\<open>crypto.timingSafeEqual\<close> throws a RangeError when the two buffers differ in
  length; the \<^verbatim>\<open>catch\<close> turns every exception into \<^verbatim>\<open>false\<close>.
\<close>

definition timingSafeEqual :: "byte list \<Rightarrow> byte list \<Rightarrow> js_error + bool" where
  "timingSafeEqual a b = (if length a \<noteq> length b then Inl RangeError else Inr (a = b))"

definition verifySignature ::
  "(string \<Rightarrow> string \<Rightarrow> byte list) \<Rightarrow> webhook_server \<Rightarrow> string \<Rightarrow> string option \<Rightarrow> bool" where
  "verifySignature hmac srv payload signature =
     (case secret srv of
        None \<Rightarrow> True
      | Some sec \<Rightarrow>
          if sec = [] then True
          else (case signature of
                  None \<Rightarrow> False
                | Some sg \<Rightarrow>
                    if sg = [] then False
                    else
                      let expectedSignature = hex_encode (hmac sec payload);
                          providedSignature = remove_first ''sha256='' sg
                      in (case timingSafeEqual (hex_decode expectedSignature)
                                               (hex_decode providedSignature) of
                            Inl e \<Rightarrow> False
                          | Inr isValid \<Rightarrow> isValid)))"

text \<open>
  An event payload, read as the handler reads it. \<open>event_type\<close> and \<open>device_id\<close> are
  \<open>None\<close> when absent. \<open>occurred_at\<close> is \<open>None\<close> when the property is absent or falsy,
  and otherwise holds \<^verbatim>\<open>new Date(payload.occurred_at).getTime()\<close>, which is \<open>NaN\<close> for a
  string that is no date.
\<close>

record payload =
  event_type :: "string option"
  device_id :: "string option"
  occurred_at :: "jsnum option"
  payload_battery_level :: "number option"

text \<open>
  What \<^verbatim>\<open>JSON.parse\<close> returns: \<^verbatim>\<open>null\<close>, an object, or a value none of whose
  properties the handler reads is defined (a number, a string, a boolean, an array).
\<close>

datatype json = JNull | JOther | JObject payload

datatype source = Polling | Webhook | Command

text \<open>
  A single-field status object, as in \<^verbatim>\<open>updateStateWithPriority({ locked: true }, ...)\<close>.
\<close>

definition no_fields :: lock_status where
  "no_fields = \<lparr>locked = None, battery_level = None, online = None, door_open = None\<rparr>"

text \<open>
  The \<^verbatim>\<open>switch (eventType)\<close> of \<^verbatim>\<open>processWebhook\<close>. \<open>usp\<close> is the accessory's
  \<^verbatim>\<open>updateStateWithPriority(state, source, eventTime)\<close>, which the source calls and
  none of the source files defines; here it is an argument.
\<close>

definition dispatchEvent ::
  "(lock_status \<Rightarrow> source \<Rightarrow> jsnum \<Rightarrow> 'z accessory_scheme \<Rightarrow> 'z accessory_scheme) \<Rightarrow>
   string \<Rightarrow> payload \<Rightarrow> jsnum \<Rightarrow> 'z accessory_scheme \<Rightarrow> 'z accessory_scheme" where
  "dispatchEvent usp eventType p eventTime a =
     (if eventType = ''lock.locked'' then usp (no_fields\<lparr>locked := Some True\<rparr>) Webhook eventTime a
      else if eventType = ''lock.unlocked'' then usp (no_fields\<lparr>locked := Some False\<rparr>) Webhook eventTime a
      else if eventType = ''device.connected'' then usp (no_fields\<lparr>online := Some True\<rparr>) Webhook eventTime a
      else if eventType = ''device.disconnected'' then usp (no_fields\<lparr>online := Some False\<rparr>) Webhook eventTime a
      else if eventType = ''device.low_battery'' \<or> eventType = ''device.battery_status_changed'' then
        (case payload_battery_level p of
           None \<Rightarrow> a
         | Some v \<Rightarrow> if v = Finite 0 then a
                     else usp (no_fields\<lparr>battery_level := Some v\<rparr>) Webhook eventTime a)
      else if eventType = ''device.door_opened'' then
        (if supportsDoorSensor a then usp (no_fields\<lparr>door_open := Some True\<rparr>) Webhook eventTime a else a)
      else if eventType = ''device.door_closed'' then
        (if supportsDoorSensor a then usp (no_fields\<lparr>door_open := Some False\<rparr>) Webhook eventTime a else a)
      else a)"

text \<open>
  \<^verbatim>\<open>processWebhook\<close> from the watermark check on, for the accessory found: an event no
  newer than a truthy \<open>lastEventTime\<close> is skipped; otherwise \<open>lastEventTime\<close> is set and
  the event is dispatched.
\<close>

definition handleEvent ::
  "(lock_status \<Rightarrow> source \<Rightarrow> jsnum \<Rightarrow> 'z accessory_scheme \<Rightarrow> 'z accessory_scheme) \<Rightarrow>
   string \<Rightarrow> payload \<Rightarrow> jsnum \<Rightarrow> 'z accessory_scheme \<Rightarrow> 'z accessory_scheme" where
  "handleEvent usp eventType p eventTime a =
     (if truthy_num (lastEventTime a) \<and> js_le eventTime (lastEventTime a) then a
      else dispatchEvent usp eventType p eventTime (a\<lparr>lastEventTime := Some eventTime\<rparr>))"

text \<open>
  \<^verbatim>\<open>this.platform.accessories.find(pred)\<close> followed by mutation of the object found: the
  first element that satisfies \<open>pred\<close> is replaced, and nothing changes when there is none.
\<close>

fun update_first :: "('a \<Rightarrow> bool) \<Rightarrow> ('a \<Rightarrow> 'a) \<Rightarrow> 'a list \<Rightarrow> 'a list" where
  "update_first pred f [] = []"
| "update_first pred f (x # xs) = (if pred x then f x # xs else x # update_first pred f xs)"

text \<open>\<^verbatim>\<open>payload.occurred_at ? new Date(payload.occurred_at).getTime() : Date.now()\<close>\<close>

definition eventTimeOf :: "int \<Rightarrow> payload \<Rightarrow> jsnum" where
  "eventTimeOf now p = (case occurred_at p of Some t \<Rightarrow> t | None \<Rightarrow> Num now)"

definition processWebhook ::
  "(lock_status \<Rightarrow> source \<Rightarrow> jsnum \<Rightarrow> 'z accessory_scheme \<Rightarrow> 'z accessory_scheme) \<Rightarrow>
   int \<Rightarrow> json \<Rightarrow> 'z accessory_scheme list \<Rightarrow> 'z accessory_scheme list" where
  "processWebhook usp now pl accs =
     (case pl of
        JNull \<Rightarrow> accs
      | JOther \<Rightarrow> accs
      | JObject p \<Rightarrow>
          (case event_type p of
             None \<Rightarrow> accs
           | Some eventType \<Rightarrow>
               if eventType = [] then accs
               else update_first (\<lambda>acc. Some (deviceId acc) = device_id p)
                      (handleEvent usp eventType p (eventTimeOf now p)) accs))"

text \<open>An incoming request: method, URL, the two signature headers and the body read.\<close>

record request =
  req_method :: string
  req_url :: string
  x_seam_signature :: "string option"
  x_hub_signature_256 :: "string option"
  req_body :: string

datatype response_body = NotFound | Unauthorized | BadRequest | Success

type_synonym response = "nat \<times> response_body"

text \<open>
  \<^verbatim>\<open>handleRequest(req, res)\<close>, from the request to the response written and the
  accessories after it. \<open>parse\<close> stands for \<^verbatim>\<open>JSON.parse\<close> (\<open>None\<close> when it throws).
  \<open>processBody\<close> is the \<^verbatim>\<open>try\<close> block after the signature check: the log line after the
  parse reads \<^verbatim>\<open>payload.event_type\<close>, which throws a TypeError on \<^verbatim>\<open>null\<close>; like a
  parse error it is caught by the handler's \<^verbatim>\<open>catch\<close>, which answers 400.
\<close>

definition processBody ::
  "(string \<Rightarrow> json option) \<Rightarrow>
   (lock_status \<Rightarrow> source \<Rightarrow> jsnum \<Rightarrow> 'z accessory_scheme \<Rightarrow> 'z accessory_scheme) \<Rightarrow>
   int \<Rightarrow> string \<Rightarrow> 'z accessory_scheme list \<Rightarrow> response \<times> 'z accessory_scheme list" where
  "processBody parse usp now body accs =
     (case parse body of
        None \<Rightarrow> ((400, BadRequest), accs)
      | Some JNull \<Rightarrow> ((400, BadRequest), accs)
      | Some pl \<Rightarrow> ((200, Success), processWebhook usp now pl accs))"

definition handleRequest ::
  "(string \<Rightarrow> string \<Rightarrow> byte list) \<Rightarrow> (string \<Rightarrow> json option) \<Rightarrow>
   (lock_status \<Rightarrow> source \<Rightarrow> jsnum \<Rightarrow> 'z accessory_scheme \<Rightarrow> 'z accessory_scheme) \<Rightarrow>
   int \<Rightarrow> webhook_server \<Rightarrow> request \<Rightarrow> 'z accessory_scheme list \<Rightarrow>
   response \<times> 'z accessory_scheme list" where
  "handleRequest hmac parse usp now srv req accs =
     (if req_method req \<noteq> ''POST'' \<or> Some (req_url req) \<noteq> path srv then ((404, NotFound), accs)
      else
        let signature = js_or (x_seam_signature req) (x_hub_signature_256 req)
        in if truthy_str signature \<and> \<not> verifySignature hmac srv (req_body req) signature
           then ((401, Unauthorized), accs)
           else processBody parse usp now (req_body req) accs)"

section \<open>SeamPlatform.pollDevices\<close>

text \<open>
  One turn of the polling loop. The first argument is the outcome of
  \<^verbatim>\<open>await this.seamAPI.getLockStatus(accessory.deviceId)\<close>: an exception, a value that
  fails \<^verbatim>\<open>status && typeof status === 'object'\<close> (\<open>Inr None\<close>), or a status object.
\<close>

definition pollOne ::
  "(lock_status \<Rightarrow> source \<Rightarrow> jsnum \<Rightarrow> 'z accessory_scheme \<Rightarrow> 'z accessory_scheme) \<Rightarrow>
   js_error + lock_status option \<Rightarrow> int \<Rightarrow> 'z accessory_scheme \<Rightarrow> 'z accessory_scheme" where
  "pollOne usp reply now a =
     (case reply of
        Inl e \<Rightarrow> a
      | Inr None \<Rightarrow> a
      | Inr (Some status) \<Rightarrow> usp status Polling (Num now) a)"

text \<open>
  The loop over \<^verbatim>\<open>this.accessories\<close>, from index \<open>i\<close> on. \<open>query i d\<close> is the outcome of
  the status query of turn \<open>i\<close> for device \<open>d\<close>, \<open>clock i\<close> the value of \<^verbatim>\<open>Date.now()\<close>
  read in that turn.
\<close>

fun pollFrom ::
  "(lock_status \<Rightarrow> source \<Rightarrow> jsnum \<Rightarrow> 'z accessory_scheme \<Rightarrow> 'z accessory_scheme) \<Rightarrow>
   (nat \<Rightarrow> string \<Rightarrow> js_error + lock_status option) \<Rightarrow> (nat \<Rightarrow> int) \<Rightarrow> nat \<Rightarrow>
   'z accessory_scheme list \<Rightarrow> 'z accessory_scheme list" where
  "pollFrom usp query clock i [] = []"
| "pollFrom usp query clock i (a # as) =
     pollOne usp (query i (deviceId a)) (clock i) a # pollFrom usp query clock (Suc i) as"

definition pollDevices ::
  "(lock_status \<Rightarrow> source \<Rightarrow> jsnum \<Rightarrow> 'z accessory_scheme \<Rightarrow> 'z accessory_scheme) \<Rightarrow>
   (nat \<Rightarrow> string \<Rightarrow> js_error + lock_status option) \<Rightarrow> (nat \<Rightarrow> int) \<Rightarrow>
   'z accessory_scheme list \<Rightarrow> 'z accessory_scheme list" where
  "pollDevices usp query clock accs =
     (if length accs = 0 then accs else pollFrom usp query clock 0 accs)"

section \<open>WebhookServer: registration with the remote service\<close>

text \<open>
  A webhook subscription as the remote service lists it (\<^verbatim>\<open>webhook_id\<close>, \<^verbatim>\<open>url\<close>, the
  event types), and the service's registry as the plugin sees it through
  \<^verbatim>\<open>SeamAPI.listWebhooks\<close>, \<^verbatim>\<open>createWebhook\<close> and \<^verbatim>\<open>deleteWebhook\<close>: the subscriptions, the
  identifier the next subscription gets, and \<open>failures\<close>, which tells for each coming
  call whether it fails (network error, timeout, non-success answer); calls beyond the
  list succeed.
\<close>

record webhook =
  webhook_id :: nat
  url :: "string option"
  event_types :: "string list"

record remote =
  webhooks :: "webhook list"
  next_id :: nat
  failures :: "bool list"

definition next_call :: "remote \<Rightarrow> bool \<times> remote" where
  "next_call r = (case failures r of [] \<Rightarrow> (False, r) | f # fs \<Rightarrow> (f, r\<lparr>failures := fs\<rparr>))"

definition listWebhooks :: "remote \<Rightarrow> (js_error + webhook list) \<times> remote" where
  "listWebhooks r =
     (case next_call r of (failed, r1) \<Rightarrow>
        if failed then (Inl RemoteError, r1) else (Inr (webhooks r1), r1))"

definition createWebhook ::
  "string option \<Rightarrow> string list \<Rightarrow> remote \<Rightarrow> (js_error + webhook) \<times> remote" where
  "createWebhook u eventTypes r =
     (case next_call r of (failed, r1) \<Rightarrow>
        if failed then (Inl RemoteError, r1)
        else
          let wh = \<lparr>webhook_id = next_id r1, url = u, event_types = eventTypes\<rparr>
          in (Inr wh, r1\<lparr>webhooks := webhooks r1 @ [wh], next_id := Suc (next_id r1)\<rparr>))"

definition deleteWebhook :: "nat \<Rightarrow> remote \<Rightarrow> (js_error + bool) \<times> remote" where
  "deleteWebhook i r =
     (case next_call r of (failed, r1) \<Rightarrow>
        if failed then (Inl RemoteError, r1)
        else (Inr True, r1\<lparr>webhooks := filter (\<lambda>wh. webhook_id wh \<noteq> i) (webhooks r1)\<rparr>))"

text \<open>
  \<^verbatim>\<open>webhook.url && this.config.url && webhook.url.startsWith(this.config.url)\<close>: the
  subscription targets the configured base URL.
\<close>

definition targetsBase :: "string option \<Rightarrow> webhook \<Rightarrow> bool" where
  "targetsBase base wh =
     (case url wh of
        None \<Rightarrow> False
      | Some u \<Rightarrow> (case base of None \<Rightarrow> False | Some b \<Rightarrow> u \<noteq> [] \<and> b \<noteq> [] \<and> prefix b u))"

text \<open>
  The loop of \<^verbatim>\<open>cleanupWebhook\<close> over the subscriptions listed: each one that targets
  the base URL is deleted; a deletion that fails is logged and the loop goes on.
\<close>

fun cleanupLoop :: "string option \<Rightarrow> webhook list \<Rightarrow> remote \<Rightarrow> remote" where
  "cleanupLoop base [] r = r"
| "cleanupLoop base (wh # whs) r =
     (if targetsBase base wh
      then cleanupLoop base whs (snd (deleteWebhook (webhook_id wh) r))
      else cleanupLoop base whs r)"

text \<open>\<^verbatim>\<open>cleanupWebhook\<close>: a listing that fails skips the cleanup.\<close>

definition cleanupWebhook :: "webhook_server \<Rightarrow> remote \<Rightarrow> remote" where
  "cleanupWebhook srv r =
     (case listWebhooks r of
        (Inl e, r1) \<Rightarrow> r1
      | (Inr existingWebhooks, r1) \<Rightarrow> cleanupLoop (config_url srv) existingWebhooks r1)"

text \<open>\<^verbatim>\<open>getSupportedWebhookEvents\<close>\<close>

definition getSupportedWebhookEvents :: "'z accessory_scheme list \<Rightarrow> string list" where
  "getSupportedWebhookEvents accs =
     [''device.connected'', ''device.disconnected'', ''lock.locked'', ''lock.unlocked'',
      ''device.low_battery'', ''device.battery_status_changed''] @
     (if list_ex supportsDoorSensor accs then [''device.door_opened'', ''device.door_closed''] else [])"

text \<open>
  \<^verbatim>\<open>registerWebhook\<close>: a subscription whose URL is exactly \<^verbatim>\<open>this.webhookUrl\<close> is
  adopted; otherwise the subscriptions of the base URL are cleaned up and one is created.
  Every exception is caught and logged.
\<close>

definition registerWebhook ::
  "'z accessory_scheme list \<Rightarrow> webhook_server \<times> remote \<Rightarrow> webhook_server \<times> remote" where
  "registerWebhook accs sr =
     (case sr of (srv, r) \<Rightarrow>
        (case listWebhooks r of
           (Inl e, r1) \<Rightarrow> (srv, r1)
         | (Inr existingWebhooks, r1) \<Rightarrow>
             (case find (\<lambda>wh. webhookUrl srv \<noteq> None \<and> url wh = webhookUrl srv) existingWebhooks of
                Some existingWebhook \<Rightarrow> (srv\<lparr>webhookId := Some (webhook_id existingWebhook)\<rparr>, r1)
              | None \<Rightarrow>
                  (case createWebhook (webhookUrl srv) (getSupportedWebhookEvents accs)
                          (cleanupWebhook srv r1) of
                     (Inl e, r3) \<Rightarrow> (srv, r3)
                   | (Inr wh, r3) \<Rightarrow> (srv\<lparr>webhookId := Some (webhook_id wh)\<rparr>, r3)))))"

text \<open>
  \<^verbatim>\<open>start()\<close>. \<open>uuid\<close> is the value of \<^verbatim>\<open>crypto.randomUUID()\<close> and \<open>bytes\<close> that of
  \<^verbatim>\<open>crypto.randomBytes(32)\<close> drawn by this start; \<open>listen_ok\<close> tells whether
  \<^verbatim>\<open>server.listen\<close> succeeded (its error is logged and thrown again, before any
  registration). \<^verbatim>\<open>saveWebhookConfig\<close> copies the path and the secret into the platform's
  configuration object, which nothing modelled here reads; it is left out.
\<close>

definition start ::
  "string \<Rightarrow> byte list \<Rightarrow> bool \<Rightarrow> 'z accessory_scheme list \<Rightarrow> webhook_server \<times> remote \<Rightarrow>
   js_error option \<times> webhook_server \<times> remote" where
  "start uuid bytes listen_ok accs sr =
     (case sr of (srv, r) \<Rightarrow>
        if \<not> config_enabled srv
        then (None, srv\<lparr>path := None, secret := None\<rparr>, cleanupWebhook srv r)
        else (case config_url srv of
                None \<Rightarrow> (None, srv, r)
              | Some base \<Rightarrow>
                  if base = [] then (None, srv, r)
                  else
                    let srv1 = srv\<lparr>path := Some (''/'' @ uuid), secret := Some (hex_encode bytes),
                                   webhookUrl := Some (base @ ''/'' @ uuid), listening := True\<rparr>
                    in if \<not> listen_ok then (Some ListenError, srv1, r)
                       else (None, registerWebhook accs (srv1, r))))"

text \<open>\<^verbatim>\<open>stop()\<close>\<close>

definition stop :: "webhook_server \<times> remote \<Rightarrow> webhook_server \<times> remote" where
  "stop sr =
     (case sr of (srv, r) \<Rightarrow>
        (srv\<lparr>listening := False, path := None, secret := None, webhookId := None\<rparr>,
         cleanupWebhook srv r))"

section \<open>LockAccessory: lock and unlock commands\<close>

text \<open>
  \<^verbatim>\<open>setLockTargetState\<close> and \<^verbatim>\<open>executeLockCommand\<close> are asynchronous functions: each call
  runs until its next \<^verbatim>\<open>await\<close>, and goes on when the promise it awaits is settled. The
  calls for one accessory are modelled as a transition system whose steps are these
  uninterrupted runs.

  A command is one call of \<^verbatim>\<open>executeLockCommand\<close>, identified by its index in \<open>commands\<close>,
  which also stands for the promise the call returned: \<open>RemotePending shouldLock\<close> while it
  awaits \<^verbatim>\<open>Promise.race([commandPromise, timeoutPromise])\<close> (the remote lock or unlock call
  has been issued), \<open>Settling\<close> during the two-second pause after a success, then
  \<open>Fulfilled\<close>, or \<open>Rejected\<close> after a remote failure or the timeout. A caller is one call
  of \<^verbatim>\<open>setLockTargetState\<close>: \<open>AwaitingPrevious p shouldLock\<close> at
  \<^verbatim>\<open>await this.commandPromise\<close> inside \<^verbatim>\<open>if (this.isCommandInProgress)\<close>, \<open>AwaitingOwn p\<close>
  at the \<^verbatim>\<open>await\<close> inside \<^verbatim>\<open>try ... finally\<close>, then \<open>Returned\<close> or \<open>Threw\<close>.
\<close>

datatype remote_outcome = RemoteSuccess | RemoteFailure | CommandTimeout

datatype command_phase = RemotePending bool | Settling | Fulfilled | Rejected

datatype caller = AwaitingPrevious nat bool | AwaitingOwn nat | Returned | Threw

record lock_system =
  lock :: accessory
  commandPromise :: "nat option"
  commands :: "command_phase list"
  callers :: "caller list"

datatype event = Request bool | RemoteDone nat remote_outcome | DelayElapsed nat | Resume nat

text \<open>
  \<^verbatim>\<open>this.isCommandInProgress = true; this.commandPromise = this.executeLockCommand(shouldLock);\<close>
  The flag is set and the remote call is issued: the new command, whose index is the
  length of \<open>commands\<close> before, is \<open>RemotePending\<close>. The caller then waits for it.
\<close>

definition startCommand :: "bool \<Rightarrow> lock_system \<Rightarrow> lock_system" where
  "startCommand shouldLock s =
     s\<lparr>lock := (lock s)\<lparr>isCommandInProgress := True\<rparr>,
       commandPromise := Some (length (commands s)),
       commands := commands s @ [RemotePending shouldLock]\<rparr>"

text \<open>The \<^verbatim>\<open>finally\<close> block of \<^verbatim>\<open>setLockTargetState\<close>, and how caller \<open>c\<close> leaves.\<close>

definition finallyRelease :: "caller \<Rightarrow> nat \<Rightarrow> lock_system \<Rightarrow> lock_system" where
  "finallyRelease exit c s =
     s\<lparr>lock := (lock s)\<lparr>isCommandInProgress := False\<rparr>,
       commandPromise := None,
       callers := (callers s)[c := exit]\<rparr>"

text \<open>
  One step; \<open>None\<close> when the event cannot happen in the state.
  \<^item> \<open>Request shouldLock\<close>: a new call of \<^verbatim>\<open>setLockTargetState\<close>, up to its first \<^verbatim>\<open>await\<close>.
  \<^item> \<open>RemoteDone p outcome\<close>: the race of command \<open>p\<close> is decided. On success the lock state
    and the characteristics are written and the pause begins; otherwise the \<^verbatim>\<open>catch\<close> throws
    the HAP error and the promise is rejected.
  \<^item> \<open>DelayElapsed p\<close>: the pause of command \<open>p\<close> is over and its promise is fulfilled.
  \<^item> \<open>Resume c\<close>: caller \<open>c\<close> goes on after the promise it awaits is settled. A caller that
    waited for a previous command throws if it was rejected, and otherwise starts its own
    command without reading the flag again; a caller that waited for its own command runs
    \<^verbatim>\<open>finally\<close> and returns, or throws if the command was rejected.
\<close>

fun step :: "event \<Rightarrow> lock_system \<Rightarrow> lock_system option" where
  "step (Request shouldLock) s =
     (let own = (startCommand shouldLock s)\<lparr>callers := callers s @ [AwaitingOwn (length (commands s))]\<rparr>
      in if isCommandInProgress (lock s)
         then (case commandPromise s of
                 Some p \<Rightarrow> Some (s\<lparr>callers := callers s @ [AwaitingPrevious p shouldLock]\<rparr>)
               | None \<Rightarrow> Some own)
         else Some own)"
| "step (RemoteDone p outcome) s =
     (if p < length (commands s)
      then (case commands s ! p of
              RemotePending shouldLock \<Rightarrow>
                (case outcome of
                   RemoteSuccess \<Rightarrow>
                     Some (s\<lparr>lock := (lock s)\<lparr>isLocked := shouldLock,
                                  hkLockCurrentState := shouldLock, hkLockTargetState := shouldLock\<rparr>,
                             commands := (commands s)[p := Settling]\<rparr>)
                 | RemoteFailure \<Rightarrow> Some (s\<lparr>commands := (commands s)[p := Rejected]\<rparr>)
                 | CommandTimeout \<Rightarrow> Some (s\<lparr>commands := (commands s)[p := Rejected]\<rparr>))
            | Settling \<Rightarrow> None
            | Fulfilled \<Rightarrow> None
            | Rejected \<Rightarrow> None)
      else None)"
| "step (DelayElapsed p) s =
     (if p < length (commands s) \<and> commands s ! p = Settling
      then Some (s\<lparr>commands := (commands s)[p := Fulfilled]\<rparr>)
      else None)"
| "step (Resume c) s =
     (if c < length (callers s)
      then (case callers s ! c of
              AwaitingPrevious p shouldLock \<Rightarrow>
                (if p < length (commands s)
                 then (case commands s ! p of
                         Fulfilled \<Rightarrow>
                           Some ((startCommand shouldLock s)
                                   \<lparr>callers := (callers s)[c := AwaitingOwn (length (commands s))]\<rparr>)
                       | Rejected \<Rightarrow> Some (s\<lparr>callers := (callers s)[c := Threw]\<rparr>)
                       | RemotePending b \<Rightarrow> None
                       | Settling \<Rightarrow> None)
                 else None)
            | AwaitingOwn p \<Rightarrow>
                (if p < length (commands s)
                 then (case commands s ! p of
                         Fulfilled \<Rightarrow> Some (finallyRelease Returned c s)
                       | Rejected \<Rightarrow> Some (finallyRelease Threw c s)
                       | RemotePending b \<Rightarrow> None
                       | Settling \<Rightarrow> None)
                 else None)
            | Returned \<Rightarrow> None
            | Threw \<Rightarrow> None)
      else None)"

fun run :: "event list \<Rightarrow> lock_system \<Rightarrow> lock_system option" where
  "run [] s = Some s"
| "run (e # es) s = (case step e s of None \<Rightarrow> None | Some s1 \<Rightarrow> run es s1)"

text \<open>The remote lock and unlock calls issued and not yet answered or timed out.\<close>

definition remoteCallsInFlight :: "lock_system \<Rightarrow> nat" where
  "remoteCallsInFlight s =
     length (filter (\<lambda>ph. case ph of RemotePending b \<Rightarrow> True | Settling \<Rightarrow> False
                                   | Fulfilled \<Rightarrow> False | Rejected \<Rightarrow> False) (commands s))"

text \<open>An accessory with no call of \<^verbatim>\<open>setLockTargetState\<close> yet.\<close>

definition idle :: "accessory \<Rightarrow> lock_system" where
  "idle a = \<lparr>lock = a\<lparr>isCommandInProgress := False\<rparr>, commandPromise = None,
             commands = [], callers = []\<rparr>"

text \<open>
  What is left of a command of caller \<open>c\<close> once its remote call is issued: the race is
  decided with \<open>outcome\<close>, a success is followed by the pause, and the caller goes on.
\<close>

fun completion :: "remote_outcome \<Rightarrow> nat \<Rightarrow> nat \<Rightarrow> event list" where
  "completion RemoteSuccess p c = [RemoteDone p RemoteSuccess, DelayElapsed p, Resume c]"
| "completion outcome p c = [RemoteDone p outcome, Resume c]"

text \<open>
  The states reached from an idle accessory by any sequence of events.
\<close>

inductive reachable :: "lock_system \<Rightarrow> bool" where
  reachable_idle: "reachable (idle a)"
| reachable_step: "reachable s \<Longrightarrow> step e s = Some s1 \<Longrightarrow> reachable s1"

text \<open>
  The invariant of the system while at most two calls of \<^verbatim>\<open>setLockTargetState\<close> have been
  made: the first caller never waits for a previous command; a second caller that waits
  does so for command 0, the only one; a second command exists only once command 0 is
  over.
\<close>

definition final_phase :: "command_phase \<Rightarrow> bool" where
  "final_phase ph = (ph = Fulfilled \<or> ph = Rejected)"

definition exited :: "caller \<Rightarrow> bool" where
  "exited k = (k = Returned \<or> k = Threw)"

definition two_caller_inv :: "lock_system \<Rightarrow> bool" where
  "two_caller_inv s =
     (length (commands s) \<le> length (callers s) \<and>
      (callers s = [] \<longrightarrow> \<not> isCommandInProgress (lock s)) \<and>
      (\<forall>k. callers s = [k] \<longrightarrow>
         length (commands s) = 1 \<and>
         ((k = AwaitingOwn 0 \<and> isCommandInProgress (lock s) \<and> commandPromise s = Some 0) \<or>
          (exited k \<and> final_phase (commands s ! 0) \<and> \<not> isCommandInProgress (lock s)))) \<and>
      (\<forall>k0 k1. callers s = [k0, k1] \<longrightarrow>
         (\<forall>p b. k0 \<noteq> AwaitingPrevious p b) \<and>
         (\<forall>p b. k1 = AwaitingPrevious p b \<longrightarrow> p = 0 \<and> length (commands s) = 1) \<and>
         (length (commands s) = 2 \<longrightarrow> final_phase (commands s ! 0))))"

section \<open>Sample values\<close>

text \<open>An accessory as the constructor and \<^verbatim>\<open>setupAccessory\<close> leave it.\<close>

definition sample_accessory :: "string \<Rightarrow> bool \<Rightarrow> accessory" where
  "sample_accessory i door =
     \<lparr>deviceId = i, isLocked = True, batteryLevel = Finite 100, isLowBattery = False,
      isDoorOpen = False, supportsDoorSensor = door, contactService = door,
      isCommandInProgress = False, cacheLevel = Finite 100, cacheIsLow = False,
      cacheLastUpdated = 0, lastEventTime = None, hkLockCurrentState = True,
      hkLockTargetState = True, hkBatteryLevel = Finite 100, hkStatusLowBattery = False,
      hkContactSensorState = False\<rparr>"

definition sample_device :: "number option \<Rightarrow> device" where
  "sample_device b =
     \<lparr>properties = Some \<lparr>prop_locked = Some True, prop_battery_level = b,
                          prop_online = Some True, prop_door_open = None\<rparr>\<rparr>"

text \<open>
  Stand-ins for the arguments in the examples below (the theorems hold for every value of
  them): a digest function that returns one fixed 32-byte digest, a parser that knows
  three bodies, a listening server, and the update function of the earlier revision of
  \<^verbatim>\<open>processWebhook\<close>, which calls \<^verbatim>\<open>accessory.updateState(state)\<close> and passes neither
  source nor event time.
\<close>

definition sample_hmac :: "string \<Rightarrow> string \<Rightarrow> byte list" where
  "sample_hmac key msg = replicate 32 0xAB"

definition sample_parse :: "string \<Rightarrow> json option" where
  "sample_parse body =
     (if body = ''null'' then Some JNull
      else if body = ''[]'' then Some JOther
      else if body = ''{}'' then
        Some (JObject \<lparr>event_type = None, device_id = None, occurred_at = None,
                        payload_battery_level = None\<rparr>)
      else None)"

definition sample_server :: webhook_server where
  "sample_server =
     \<lparr>path = Some ''/hook'', secret = Some ''s3cret'', webhookUrl = Some ''https://example.org/hook'',
      webhookId = None, config_url = Some ''https://example.org'', config_enabled = True,
      listening = True\<rparr>"

definition updateStateOnly :: "int \<Rightarrow> lock_status \<Rightarrow> source \<Rightarrow> jsnum \<Rightarrow> accessory \<Rightarrow> accessory" where
  "updateStateOnly now st src eventTime a = updateState now st a"

definition sample_request :: "string option \<Rightarrow> string \<Rightarrow> request" where
  "sample_request sg body =
     \<lparr>req_method = ''POST'', req_url = ''/hook'', x_seam_signature = sg,
      x_hub_signature_256 = None, req_body = body\<rparr>"

definition sample_query :: "nat \<Rightarrow> string \<Rightarrow> js_error + lock_status option" where
  "sample_query i d =
     (if d = ''d1'' then Inl RemoteError
      else if d = ''d2'' then Inr None
      else Inr (Some (no_fields\<lparr>locked := Some False\<rparr>)))"

definition sample_clock :: "nat \<Rightarrow> int" where
  "sample_clock i = 1000 + int i"

definition sample_event :: "string \<Rightarrow> string \<Rightarrow> jsnum \<Rightarrow> payload" where
  "sample_event e d t =
     \<lparr>event_type = Some e, device_id = Some d, occurred_at = Some t,
      payload_battery_level = None\<rparr>"

definition sample_remote :: "webhook list \<Rightarrow> bool list \<Rightarrow> remote" where
  "sample_remote whs fs = \<lparr>webhooks = whs, next_id = 9, failures = fs\<rparr>"

definition sample_webhooks :: "webhook list" where
  "sample_webhooks =
     [\<lparr>webhook_id = 7, url = Some ''https://example.org/old'', event_types = []\<rparr>,
      \<lparr>webhook_id = 8, url = Some ''https://other.example/hook'', event_types = []\<rparr>]"

chapter \<open>Properties\<close>

section \<open>State updates while a command is in progress\<close>

text \<open>
  C2, as stated, fails: with a command in progress \<^verbatim>\<open>updateState\<close> returns before it
  reads any field, so a battery level that comes with a lock state is not applied
  either. Here the update carries \<open>locked = false\<close> and \<open>battery_level = 50\<close>; the
  accessory keeps battery level 100.
\<close>

theorem updateState_partial_counterexample:
  "batteryLevel (updateState 1000
      \<lparr>locked = Some False, battery_level = Some (Finite 50), online = Some True, door_open = None\<rparr>
      ((sample_accessory ''d1'' True)\<lparr>isCommandInProgress := True\<rparr>)) = Finite 100"
  by (simp add: updateState_def sample_accessory_def)

text \<open>
  C2 (amended): for every accessory whose \<open>isCommandInProgress\<close> flag is true, an update
  from polling or from a webhook is skipped as a whole: the locked field is rejected and
  so are the battery level and the door state, whatever the update holds (the online
  field is read in no case). The accessory is left exactly as it was.
\<close>

theorem updateState_command_in_progress:
  "isCommandInProgress a \<Longrightarrow> updateState now st a = a"
  by (simp add: updateState_def)

theorem updateState_command_in_progress_witness:
  "isCommandInProgress ((sample_accessory ''d1'' True)\<lparr>isCommandInProgress := True\<rparr>) \<and>
   updateState 1000
      \<lparr>locked = Some False, battery_level = Some (Finite 50), online = Some False, door_open = Some True\<rparr>
      ((sample_accessory ''d1'' True)\<lparr>isCommandInProgress := True\<rparr>)
     = (sample_accessory ''d1'' True)\<lparr>isCommandInProgress := True\<rparr>"
  using updateState_command_in_progress
    [of "(sample_accessory ''d1'' True)\<lparr>isCommandInProgress := True\<rparr>" 1000
        "\<lparr>locked = Some False, battery_level = Some (Finite 50), online = Some False, door_open = Some True\<rparr>"]
  by (simp add: sample_accessory_def)

section \<open>Battery level conversion\<close>

lemma pow2_pos: "0 < pow2 e"
  by (simp add: pow2_def)

lemma round_half_even_le:
  assumes "q \<le> of_int N"
  shows "round_half_even q \<le> N"
proof -
  have fl: "\<lfloor>q\<rfloor> \<le> N" using assms by (simp add: floor_le_iff)
  show ?thesis
  proof (cases "\<lfloor>q\<rfloor> = N")
    case True
    then have "q - of_int \<lfloor>q\<rfloor> \<le> 0" using assms by simp
    then have "q - of_int \<lfloor>q\<rfloor> < 1 / 2" by simp
    then show ?thesis using True by (simp add: round_half_even_def Let_def)
  next
    case False
    then have "\<lfloor>q\<rfloor> + 1 \<le> N" using fl by simp
    then show ?thesis by (simp add: round_half_even_def Let_def)
  qed
qed

lemma round_half_even_nonneg:
  assumes "0 \<le> q"
  shows "0 \<le> round_half_even q"
proof -
  have "0 \<le> \<lfloor>q\<rfloor>" using assms by simp
  then show ?thesis by (simp add: round_half_even_def Let_def)
qed

text \<open>A positive number up to 100 lies below \<open>2 ^ 7\<close>, so its exponent is at most 6.\<close>

lemma exponent_le_6:
  assumes "0 < x" and "x \<le> 100"
  shows "exponent x \<le> 6"
proof -
  obtain p q where pq: "quotient_of x = (p, q)" by (cases "quotient_of x")
  have q: "0 < q" using pq by (rule quotient_of_denom_pos)
  have x: "x = of_int p / of_int q" using pq by (rule quotient_of_div)
  have p: "0 < p" using assms(1) q x by (simp add: zero_less_divide_iff)
  have "of_int p \<le> (100::rat) * of_int q" using assms(2) q x by (simp add: pos_divide_le_eq)
  then have "p \<le> 100 * q" by (metis of_int_le_iff of_int_mult of_int_numeral)
  also have "\<dots> < q * 2 ^ 7" using q by simp
  finally have "p < q * 2 ^ 7" .
  moreover have "q * 2 ^ 7 < 2 ^ nat (bitlen q) * 2 ^ 7"
    using bitlen_bounds [OF q] by simp
  ultimately have "p < 2 ^ nat (bitlen q) * 2 ^ 7" by simp
  also have "\<dots> = 2 ^ nat (bitlen q + 7)"
    using bitlen_nonneg [of q] by (simp add: nat_add_distrib power_add)
  finally have "bitlen p \<le> bitlen q + 7"
    using bitlen_nonneg [of q] by (simp add: bitlen_le_iff_power)
  then have e0: "bitlen p - bitlen q \<le> 7" by simp
  show ?thesis
  proof (cases "bitlen p - bitlen q = 7")
    case True
    have "x < pow2 7" using assms(2) by (simp add: pow2_def)
    then show ?thesis using pq True by (simp add: exponent_def)
  next
    case False
    then have "bitlen p - bitlen q \<le> 6" using e0 by simp
    then show ?thesis using pq by (simp add: exponent_def Let_def)
  qed
qed

text \<open>
  Rounding to a double keeps a positive number up to 100 between 0 and 100: 100 is a
  double, and rounding is monotone.
\<close>

lemma round_double_percent:
  assumes "0 < x" and "x \<le> 100"
  shows "\<exists>y. round_double x = Finite y \<and> 0 \<le> y \<and> y \<le> 100"
proof -
  define e where "e = max (exponent x) (- 1022)"
  define j where "j = nat (52 - e)"
  define n where "n = round_half_even (x * of_int (2 ^ j))"
  have "e \<le> 6" using exponent_le_6 [OF assms] by (simp add: e_def)
  then have neg: "\<not> 0 \<le> e - 52" and j: "nat (- (e - 52)) = j" by (simp_all add: j_def)
  have ulp: "pow2 (e - 52) = 1 / of_int (2 ^ j)" using neg j by (simp add: pow2_def)
  have "x * of_int (2 ^ j) \<le> of_int (100 * 2 ^ j)" using assms(2) by simp
  then have n_le: "n \<le> 100 * 2 ^ j" unfolding n_def by (rule round_half_even_le)
  have n_ge: "0 \<le> n" unfolding n_def using assms(1) by (intro round_half_even_nonneg) simp
  define y where "y = (of_int n :: rat) / of_int (2 ^ j)"
  have y0: "0 \<le> y" using n_ge by (simp add: y_def)
  have "(of_int n :: rat) \<le> of_int (100 * 2 ^ j)" using n_le by (simp only: of_int_le_iff)
  then have y100: "y \<le> 100" by (simp add: y_def pos_divide_le_eq)
  have "y < pow2 1024"
  proof -
    have "(100::rat) < of_int (2 ^ 1024)" by simp
    then show ?thesis using y100 by (simp add: pow2_def)
  qed
  then have "round_double x = Finite y"
    using assms(1) by (simp add: round_double_def Let_def e_def [symmetric] ulp n_def y_def)
  then show ?thesis using y0 y100 by simp
qed

lemma js_round_percent:
  assumes "0 \<le> y" and "y \<le> 100"
  shows "\<exists>n. js_round (Finite y) = Finite (of_int n) \<and> 0 \<le> n \<and> n \<le> 100"
proof -
  have "0 \<le> \<lfloor>y + 1 / 2\<rfloor>" using assms by simp
  moreover have "\<lfloor>y + 1 / 2\<rfloor> \<le> 100"
  proof -
    have "y + 1 / 2 < 101" using assms by simp
    then have "\<lfloor>y + 1 / 2\<rfloor> < 101" by (simp add: floor_less_iff)
    then show ?thesis by simp
  qed
  ultimately show ?thesis by simp
qed

text \<open>
  What \<^verbatim>\<open>getLockStatus\<close> does with each remote level. A missing level gives 100. A
  fraction in (0, 1] gives \<^verbatim>\<open>Math.round(level * 100)\<close>, an integer from 0 to 100. A level
  above 1 is returned as it is.
\<close>

lemma convertBatteryLevel_missing: "convertBatteryLevel None = Finite 100"
  by (simp add: convertBatteryLevel_def number_le_def)

lemma convertBatteryLevel_fraction:
  assumes "0 < v" and "v \<le> 1"
  shows "convertBatteryLevel (Some (Finite v)) = js_round (times_100 (Finite v)) \<and>
         (\<exists>n. convertBatteryLevel (Some (Finite v)) = Finite (of_int n) \<and> 0 \<le> n \<and> n \<le> 100)"
proof -
  have c: "convertBatteryLevel (Some (Finite v)) = js_round (times_100 (Finite v))"
    using assms by (auto simp: convertBatteryLevel_def number_le_def Let_def)
  have "0 < v * 100" "v * 100 \<le> 100" using assms by simp_all
  then obtain y where y: "round_double (v * 100) = Finite y" "0 \<le> y" "y \<le> 100"
    using round_double_percent by blast
  from js_round_percent [OF y(2) y(3)] show ?thesis using c y(1) by simp
qed

lemma convertBatteryLevel_above_one:
  assumes "number_less (Finite 1) v"
  shows "convertBatteryLevel (Some v) = v"
  using assms by (cases v) (auto simp: convertBatteryLevel_def number_le_def)

text \<open>
  The conversion at some numbers: \<^verbatim>\<open>0.85\<close> gives 85; \<^verbatim>\<open>0.015 * 100\<close> is the double
  \<^verbatim>\<open>1.5\<close>, rounded to 2; \<^verbatim>\<open>0.285 * 100\<close> is a double just below \<^verbatim>\<open>28.5\<close>, rounded to 28;
  \<^verbatim>\<open>0.001\<close> gives 0; a product beyond the doubles is an infinity.
\<close>

lemma convertBatteryLevel_examples:
  "convertBatteryLevel (Some (round_double (17 / 20))) = Finite 85 \<and>
   convertBatteryLevel (Some (round_double (3 / 200))) = Finite 2 \<and>
   convertBatteryLevel (Some (round_double (57 / 200))) = Finite 28 \<and>
   convertBatteryLevel (Some (round_double (1 / 1000))) = Finite 0 \<and>
   convertBatteryLevel (Some (Finite 1)) = Finite 100 \<and>
   convertBatteryLevel (Some (Finite 42)) = Finite 42 \<and>
   convertBatteryLevel (Some (Finite (- of_int (2 ^ 1020)))) = NegInfinity"
  by code_simp

text \<open>
  C9: the claim maps every remote level that is at most 1 to \<open>round (level * 100)\<close>, so
  the level 0 (an empty battery) to 0, and so does the comment in the code (``convert
  battery level from 0-1 to 0-100''). \<^verbatim>\<open>getLockStatus\<close> returns 100 for it: in
  \<^verbatim>\<open>battery_level || 100\<close> the default meant for a missing level also replaces the level 0,
  which is falsy. The level 0 is at most 1 and \<^verbatim>\<open>Math.round(0 * 100)\<close> is 0; the level
  \<^verbatim>\<open>0.001\<close> next to it is converted to 0.
\<close>

theorem getLockStatus_zero_battery:
  "map_sum id battery_level (getLockStatus (Inr (Some (sample_device (Some (Finite 0))))))
     = Inr (Some (Finite 100)) \<and>
   number_le (Finite 0) (Finite 1) \<and>
   js_round (times_100 (Finite 0)) = Finite 0 \<and>
   map_sum id battery_level
      (getLockStatus (Inr (Some (sample_device (Some (round_double (1 / 1000)))))))
     = Inr (Some (Finite 0))"
proof -
  have z: "convertBatteryLevel (Some (Finite 0)) = Finite 100"
    by (simp add: convertBatteryLevel_def number_le_def)
  have r: "js_round (times_100 (Finite 0)) = Finite 0"
    by code_simp
  have t: "convertBatteryLevel (Some (round_double (1 / 1000))) = Finite 0"
    by code_simp
  show ?thesis
    using z r t
    by (simp add: getLockStatus_def sample_device_def remote_battery_level_def number_le_def)
qed

theorem getLockStatus_zero_battery_witness:
  "map_sum id battery_level (getLockStatus (Inr (Some (sample_device (Some (Finite 0))))))
     = Inr (Some (Finite 100)) \<and>
   number_le (Finite 0) (Finite 1) \<and>
   js_round (times_100 (Finite 0)) = Finite 0 \<and>
   map_sum id battery_level
      (getLockStatus (Inr (Some (sample_device (Some (round_double (1 / 1000)))))))
     = Inr (Some (Finite 0))"
  by (rule getLockStatus_zero_battery)

section \<open>Hexadecimal encoding and decoding\<close>

lemma unhex_hex_digit_all: "\<forall>n \<in> set [0..<16]. unhex (hex_digit n) = Some n"
  by code_simp

lemma unhex_hex_digit: "n < 16 \<Longrightarrow> unhex (hex_digit n) = Some n"
  using unhex_hex_digit_all by simp

lemma unat_byte_div: "unat (b :: byte) div 16 < 16"
proof -
  have "unat b < 2 ^ LENGTH(8)" by (rule unsigned_less)
  then have "unat b < 256" by simp
  then show ?thesis by simp
qed

text \<open>
  Decoding what \<^verbatim>\<open>digest('hex')\<close> wrote gives the digest back: the buffer made from
  the expected signature is the digest itself.
\<close>

lemma hex_decode_encode: "hex_decode (hex_encode bs) = bs"
proof (induction bs)
  case Nil
  show ?case by (simp add: hex_encode_def)
next
  case (Cons b bs)
  have "hex_encode (b # bs) = hex_digit (unat b div 16) # hex_digit (unat b mod 16) # hex_encode bs"
    by (simp add: hex_encode_def)
  then show ?case using Cons
    by (simp add: unhex_hex_digit unat_byte_div)
qed

text \<open>The two examples of the Node.js documentation.\<close>

lemma hex_decode_examples:
  "hex_decode ''1ag123'' = [0x1a] \<and> hex_decode ''1a7'' = [0x1a] \<and>
   hex_decode ''1634'' = [0x16, 0x34]"
  by code_simp

lemma hex_digit_in: "hex_digit n \<in> set ''0123456789abcdef''"
  unfolding hex_digit_def by (rule nth_mem) simp

lemma hex_encode_chars: "set (hex_encode bs) \<subseteq> set ''0123456789abcdef''"
  unfolding hex_encode_def using hex_digit_in by auto

lemma remove_first_absent: "c \<notin> set s \<Longrightarrow> remove_first (c # pat) s = s"
  by (induction s) auto

lemma remove_first_hex: "remove_first ''sha256='' (hex_encode bs) = hex_encode bs"
proof -
  have "CHR ''s'' \<notin> set (hex_encode bs)" using hex_encode_chars [of bs] by auto
  then show ?thesis by (rule remove_first_absent)
qed

lemma remove_first_prefixed: "remove_first ''sha256='' (''sha256='' @ s) = s"
  by simp

section \<open>Signature verification\<close>

lemma verifySignature_iff:
  assumes "secret srv = Some sec" "sec \<noteq> []" "sg \<noteq> []"
  shows "verifySignature hmac srv body (Some sg) \<longleftrightarrow>
         hex_decode (remove_first ''sha256='' sg) = hmac sec body"
  using assms
  by (auto simp: verifySignature_def timingSafeEqual_def hex_decode_encode Let_def)

text \<open>
  C6, as stated, fails in one direction: a request is also processed when the provided
  signature differs from the digest's hexadecimal text. The buffers are compared, not
  the strings, and \<^verbatim>\<open>Buffer.from(s, 'hex')\<close> stops at the first pair that is not
  hexadecimal: the digest followed by \<^verbatim>\<open>zz\<close> decodes to the digest. Here the request
  carries such a signature and is answered 200.
\<close>

theorem signature_trailing_counterexample:
  "handleRequest sample_hmac sample_parse (updateStateOnly 0) 0 sample_server
     (sample_request (Some (hex_encode (sample_hmac ''s3cret'' ''{}'') @ ''zz'')) ''{}'') []
     = ((200, Success), []) \<and>
   hex_encode (sample_hmac ''s3cret'' ''{}'') @ ''zz'' \<noteq> hex_encode (sample_hmac ''s3cret'' ''{}'') \<and>
   hex_encode (sample_hmac ''s3cret'' ''{}'') @ ''zz''
     \<noteq> ''sha256='' @ hex_encode (sample_hmac ''s3cret'' ''{}'')"
  by code_simp

text \<open>
  C6 (amended): for every POST request to the generated path, with a session secret set:
  when a signature header is present (a non-empty value of \<^verbatim>\<open>x-seam-signature\<close>, or else
  of \<^verbatim>\<open>x-hub-signature-256\<close>), the receiver computes the HMAC-SHA256 of the raw body under
  the secret and processes the request exactly when the provided value, with its first
  \<^verbatim>\<open>sha256=\<close> removed and decoded as hexadecimal up to the first pair that is not
  hexadecimal, gives the bytes of that digest; in particular whenever the provided value is
  the hexadecimal digest, bare or prefixed with \<^verbatim>\<open>sha256=\<close>. Otherwise the answer is 401
  Unauthorized and the accessories are left untouched. A request with no signature header
  (or an empty one) is processed as unverified, and processing never answers 401.
\<close>

theorem signature_verification:
  assumes "req_method req = ''POST''" and "path srv = Some (req_url req)"
    and "secret srv = Some sec" and "sec \<noteq> []"
  shows
   "(\<forall>sg. js_or (x_seam_signature req) (x_hub_signature_256 req) = Some sg \<and> sg \<noteq> [] \<longrightarrow>
        handleRequest hmac parse usp now srv req accs =
          (if hex_decode (remove_first ''sha256='' sg) = hmac sec (req_body req)
           then processBody parse usp now (req_body req) accs
           else ((401, Unauthorized), accs)) \<and>
        (sg = hex_encode (hmac sec (req_body req)) \<or>
         sg = ''sha256='' @ hex_encode (hmac sec (req_body req)) \<longrightarrow>
           handleRequest hmac parse usp now srv req accs
             = processBody parse usp now (req_body req) accs)) \<and>
    (\<not> truthy_str (js_or (x_seam_signature req) (x_hub_signature_256 req)) \<longrightarrow>
        handleRequest hmac parse usp now srv req accs
          = processBody parse usp now (req_body req) accs) \<and>
    fst (fst (processBody parse usp now (req_body req) accs)) \<noteq> 401"
proof (intro conjI allI impI)
  fix sg
  assume sg: "js_or (x_seam_signature req) (x_hub_signature_256 req) = Some sg \<and> sg \<noteq> []"
  have v: "verifySignature hmac srv (req_body req) (Some sg) \<longleftrightarrow>
           hex_decode (remove_first ''sha256='' sg) = hmac sec (req_body req)"
    using assms sg by (simp add: verifySignature_iff)
  show eq: "handleRequest hmac parse usp now srv req accs =
          (if hex_decode (remove_first ''sha256='' sg) = hmac sec (req_body req)
           then processBody parse usp now (req_body req) accs
           else ((401, Unauthorized), accs))"
    using assms sg v by (simp add: handleRequest_def)
  assume "sg = hex_encode (hmac sec (req_body req)) \<or>
         sg = ''sha256='' @ hex_encode (hmac sec (req_body req))"
  then have "hex_decode (remove_first ''sha256='' sg) = hmac sec (req_body req)"
    using remove_first_hex remove_first_prefixed hex_decode_encode by auto
  then show "handleRequest hmac parse usp now srv req accs
             = processBody parse usp now (req_body req) accs"
    using eq by simp
next
  assume "\<not> truthy_str (js_or (x_seam_signature req) (x_hub_signature_256 req))"
  then show "handleRequest hmac parse usp now srv req accs
          = processBody parse usp now (req_body req) accs"
    using assms by (simp add: handleRequest_def)
next
  show "fst (fst (processBody parse usp now (req_body req) accs)) \<noteq> 401"
    by (simp add: processBody_def split: option.splits json.splits)
qed

text \<open>
  The theorem at a request signed \<^verbatim>\<open>sha256=<digest>\<close>: it is processed and answered 200.
\<close>

theorem signature_verification_witness:
  "req_method (sample_request (Some (''sha256='' @ hex_encode (sample_hmac ''s3cret'' ''{}''))) ''{}'') = ''POST'' \<and>
   path sample_server = Some (req_url (sample_request (Some (''sha256='' @ hex_encode (sample_hmac ''s3cret'' ''{}''))) ''{}'')) \<and>
   secret sample_server = Some ''s3cret'' \<and> ''s3cret'' \<noteq> [] \<and>
   handleRequest sample_hmac sample_parse (updateStateOnly 0) 0 sample_server
     (sample_request (Some (''sha256='' @ hex_encode (sample_hmac ''s3cret'' ''{}''))) ''{}'') []
     = ((200, Success), [])"
proof -
  let ?sg = "''sha256='' @ hex_encode (sample_hmac ''s3cret'' ''{}'')"
  let ?req = "sample_request (Some ?sg) ''{}''"
  have h1: "req_method ?req = ''POST''" by (simp add: sample_request_def)
  have h2: "path sample_server = Some (req_url ?req)"
    by (simp add: sample_request_def sample_server_def)
  have h3: "secret sample_server = Some ''s3cret''" by (simp add: sample_server_def)
  have h4: "''s3cret'' \<noteq> []" by simp
  have sg: "js_or (x_seam_signature ?req) (x_hub_signature_256 ?req) = Some ?sg \<and> ?sg \<noteq> []"
    by (simp add: sample_request_def js_or_def)
  have b: "req_body ?req = ''{}''" by (simp add: sample_request_def)
  have pb: "processBody sample_parse (updateStateOnly 0) 0 ''{}'' [] = ((200, Success), [])"
    by (simp add: processBody_def sample_parse_def processWebhook_def)
  from signature_verification [OF h1 h2 h3 h4, of sample_hmac sample_parse "updateStateOnly 0" 0 "[]"]
  have "handleRequest sample_hmac sample_parse (updateStateOnly 0) 0 sample_server ?req []
          = processBody sample_parse (updateStateOnly 0) 0 (req_body ?req) []"
    using sg b by (simp add: hex_decode_encode)
  then show ?thesis using h1 h2 h3 pb b by simp
qed

section \<open>HTTP responses of the webhook receiver\<close>

text \<open>
  C5: the claim promises 200 whenever the body parses and no signature check fails. The
  body \<^verbatim>\<open>null\<close> parses (\<^verbatim>\<open>JSON.parse\<close> returns \<^verbatim>\<open>null\<close>), the request carries no signature,
  and yet the answer is 400: the log line between the parse and \<^verbatim>\<open>processWebhook\<close> reads
  \<^verbatim>\<open>payload.event_type\<close> and throws, so the guard \<^verbatim>\<open>if (!payload || ...)\<close> of
  \<^verbatim>\<open>processWebhook\<close>, which would have made the event a logged no-op, is never
  reached.
\<close>

theorem handleRequest_null_body:
  "handleRequest hmac sample_parse usp now sample_server (sample_request None ''null'') accs
     = ((400, BadRequest), accs)"
  by (simp add: handleRequest_def sample_server_def sample_request_def js_or_def
      processBody_def sample_parse_def)

text \<open>The same request with every argument concrete.\<close>

theorem handleRequest_null_body_witness:
  "handleRequest sample_hmac sample_parse (updateStateOnly 0) 0 sample_server
     (sample_request None ''null'') [sample_accessory ''d1'' False]
     = ((400, BadRequest), [sample_accessory ''d1'' False])"
  by (rule handleRequest_null_body)

text \<open>
  Every other body that parses to something without an event type is answered 200, as the
  guard of \<^verbatim>\<open>processWebhook\<close> intends; here an empty array.
\<close>

theorem handleRequest_empty_array_body:
  "handleRequest hmac sample_parse usp now sample_server (sample_request None ''[]'') accs
     = ((200, Success), accs)"
  by (simp add: handleRequest_def sample_server_def sample_request_def js_or_def
      processBody_def sample_parse_def processWebhook_def)

text \<open>
  The whole mapping from requests to status codes: 404 for another method or path, 401
  for a signature that does not verify, 400 for a body that does not parse or parses to
  \<^verbatim>\<open>null\<close>, and 200 in every other case, whatever the event does.
\<close>

lemma handleRequest_responses:
  "fst (handleRequest hmac parse usp now srv req accs) =
     (if req_method req \<noteq> ''POST'' \<or> Some (req_url req) \<noteq> path srv then (404, NotFound)
      else if truthy_str (js_or (x_seam_signature req) (x_hub_signature_256 req)) \<and>
              \<not> verifySignature hmac srv (req_body req)
                   (js_or (x_seam_signature req) (x_hub_signature_256 req))
           then (401, Unauthorized)
      else if parse (req_body req) = None \<or> parse (req_body req) = Some JNull
           then (400, BadRequest)
      else (200, Success))"
  by (auto simp: handleRequest_def processBody_def Let_def split: option.splits json.splits)

section \<open>Polling\<close>

lemma pollFrom_length: "length (pollFrom usp query clock k accs) = length accs"
  by (induction accs arbitrary: k) simp_all

lemma pollFrom_nth:
  "i < length accs \<Longrightarrow>
   pollFrom usp query clock k accs ! i
     = pollOne usp (query (k + i) (deviceId (accs ! i))) (clock (k + i)) (accs ! i)"
proof (induction accs arbitrary: k i)
  case Nil
  then show ?case by simp
next
  case (Cons a as)
  show ?case
  proof (cases i)
    case 0
    then show ?thesis by simp
  next
    case (Suc j)
    then have "j < length as" using Cons.prems by simp
    then show ?thesis using Cons.IH [of j "Suc k"] Suc by simp
  qed
qed

text \<open>
  C8: in every polling cycle each accessory has its turn with the outcome of its own
  status query, whatever happened in the turns before it: the cycle has as many results
  as accessories, and the result of turn \<open>i\<close> is \<open>pollOne\<close> of accessory \<open>i\<close>. When the
  query of a device fails (an exception: network error, timeout, non-success answer) or
  returns a value that is not a status object, that accessory is left exactly as it was;
  only a status object reaches the update function. Nothing in the cycle writes an
  offline or changed state for a failed query.
\<close>

theorem pollDevices_error_isolation:
  "length (pollDevices usp query clock accs) = length accs \<and>
   (\<forall>i < length accs.
      pollDevices usp query clock accs ! i
        = pollOne usp (query i (deviceId (accs ! i))) (clock i) (accs ! i)) \<and>
   (\<forall>i < length accs.
      (\<forall>status. query i (deviceId (accs ! i)) \<noteq> Inr (Some status)) \<longrightarrow>
      pollDevices usp query clock accs ! i = accs ! i) \<and>
   (\<forall>i < length accs. \<forall>status.
      query i (deviceId (accs ! i)) = Inr (Some status) \<longrightarrow>
      pollDevices usp query clock accs ! i = usp status Polling (Num (clock i)) (accs ! i))"
proof -
  have nth: "pollDevices usp query clock accs ! i
        = pollOne usp (query i (deviceId (accs ! i))) (clock i) (accs ! i)"
    if "i < length accs" for i
    using that pollFrom_nth [of i accs usp query clock 0] by (auto simp: pollDevices_def)
  have len: "length (pollDevices usp query clock accs) = length accs"
    by (simp add: pollDevices_def pollFrom_length)
  have fail: "pollOne usp r t a = a" if "\<forall>status. r \<noteq> Inr (Some status)" for r t a
    using that by (cases r) (auto simp: pollOne_def split: option.splits)
  show ?thesis using nth len fail by (auto simp: pollOne_def)
qed

text \<open>
  The theorem at a cycle over three devices: the first query throws, the second returns
  no object, the third returns \<open>locked = false\<close>.
\<close>

theorem pollDevices_error_isolation_witness:
  "(0::nat) < length [sample_accessory ''d1'' False, sample_accessory ''d2'' False, sample_accessory ''d3'' False] \<and>
   (\<forall>status. sample_query 0 ''d1'' \<noteq> Inr (Some status)) \<and>
   (\<forall>status. sample_query 1 ''d2'' \<noteq> Inr (Some status)) \<and>
   pollDevices (updateStateOnly 0) sample_query sample_clock
      [sample_accessory ''d1'' False, sample_accessory ''d2'' False, sample_accessory ''d3'' False] ! 0
     = sample_accessory ''d1'' False \<and>
   pollDevices (updateStateOnly 0) sample_query sample_clock
      [sample_accessory ''d1'' False, sample_accessory ''d2'' False, sample_accessory ''d3'' False] ! 1
     = sample_accessory ''d2'' False \<and>
   pollDevices (updateStateOnly 0) sample_query sample_clock
      [sample_accessory ''d1'' False, sample_accessory ''d2'' False, sample_accessory ''d3'' False] ! 2
     = (sample_accessory ''d3'' False)\<lparr>isLocked := False, hkLockCurrentState := False,
           hkLockTargetState := False\<rparr>"
proof -
  let ?accs = "[sample_accessory ''d1'' False, sample_accessory ''d2'' False, sample_accessory ''d3'' False]"
  let ?r = "pollDevices (updateStateOnly 0) sample_query sample_clock ?accs"
  note th = pollDevices_error_isolation [of "updateStateOnly 0" sample_query sample_clock ?accs]
  have q0: "\<forall>status. sample_query 0 ''d1'' \<noteq> Inr (Some status)" by (simp add: sample_query_def)
  have q1: "\<forall>status. sample_query 1 ''d2'' \<noteq> Inr (Some status)" by (simp add: sample_query_def)
  have q2: "sample_query 2 ''d3'' = Inr (Some (no_fields\<lparr>locked := Some False\<rparr>))"
    by (simp add: sample_query_def)
  have len: "length ?r = 3" using th by simp
  have r0: "?r ! 0 = ?accs ! 0"
    using th [THEN conjunct2, THEN conjunct2, THEN conjunct1, rule_format, of 0] q0
    by (simp add: sample_accessory_def)
  have r1: "?r ! 1 = ?accs ! 1"
    using th [THEN conjunct2, THEN conjunct2, THEN conjunct1, rule_format, of 1] q1
    by (simp add: sample_accessory_def)
  have r2: "?r ! 2 = updateStateOnly 0 (no_fields\<lparr>locked := Some False\<rparr>) Polling (Num (sample_clock 2)) (?accs ! 2)"
    using th [THEN conjunct2, THEN conjunct2, THEN conjunct2, rule_format, of 2] q2
    by (simp add: sample_accessory_def)
  have r2': "?r ! 2 = (sample_accessory ''d3'' False)\<lparr>isLocked := False, hkLockCurrentState := False,
           hkLockTargetState := False\<rparr>"
    unfolding r2
    by (simp add: updateStateOnly_def updateState_def updateLock_def updateBattery_def updateDoor_def
        no_fields_def sample_accessory_def)
  show ?thesis using q0 q1 r0 r1 r2' by simp
qed

section \<open>The watermark of webhook events\<close>

lemma update_first_none: "find pred xs = None \<Longrightarrow> update_first pred f xs = xs"
  by (induction xs) (auto split: if_splits)

lemma update_first_cong:
  "find pred xs = Some a \<Longrightarrow> f a = g a \<Longrightarrow> update_first pred f xs = update_first pred g xs"
  by (induction xs) (auto split: if_splits)

lemma update_first_same: "find pred xs = Some a \<Longrightarrow> f a = a \<Longrightarrow> update_first pred f xs = xs"
  by (induction xs) (auto split: if_splits)

lemma find_update_first:
  "find pred xs = Some a \<Longrightarrow> pred (f a) \<Longrightarrow> find pred (update_first pred f xs) = Some (f a)"
  by (induction xs) (auto split: if_splits)

lemma handleEvent_fresh:
  assumes "lastEventTime a = None \<or> (\<exists>w. lastEventTime a = Some (Num w) \<and> w < n)"
  shows "handleEvent usp e p (Num n) a = dispatchEvent usp e p (Num n) (a\<lparr>lastEventTime := Some (Num n)\<rparr>)"
  using assms by (auto simp: handleEvent_def)

lemma handleEvent_stale:
  assumes "lastEventTime a = Some (Num w)" "w \<noteq> 0" "n \<le> w"
  shows "handleEvent usp e p (Num n) a = a"
  using assms by (simp add: handleEvent_def)

lemma dispatchEvent_noop:
  assumes a1: "e \<notin> {''lock.locked'', ''lock.unlocked'', ''device.connected'', ''device.disconnected''}"
    and a2: "e \<in> {''device.low_battery'', ''device.battery_status_changed''} \<longrightarrow>
           payload_battery_level p = None \<or> payload_battery_level p = Some (Finite 0)"
    and a3: "e \<in> {''device.door_opened'', ''device.door_closed''} \<longrightarrow> \<not> supportsDoorSensor a"
  shows "dispatchEvent usp e p t a = a"
proof -
  have ne: "e \<noteq> ''lock.locked''" "e \<noteq> ''lock.unlocked''" "e \<noteq> ''device.connected''"
    "e \<noteq> ''device.disconnected''"
    using a1 by simp_all
  have bat: "e = ''device.low_battery'' \<or> e = ''device.battery_status_changed'' \<Longrightarrow>
             payload_battery_level p = None \<or> payload_battery_level p = Some (Finite 0)"
    using a2 by simp
  have door: "e = ''device.door_opened'' \<or> e = ''device.door_closed'' \<Longrightarrow> \<not> supportsDoorSensor a"
    using a3 by simp
  show ?thesis
    unfolding dispatchEvent_def
    using ne bat door by (simp split: option.splits) (metis option.distinct(1) option.inject)
qed

text \<open>
  An event for a known device whose time is at most the device's watermark is discarded,
  whatever its type, when the watermark is a number other than 0: the accessories are
  left as they were and no update function is called.
\<close>

lemma stale_event_discarded:
  assumes dev: "find (\<lambda>acc. Some (deviceId acc) = device_id p) accs = Some a"
    and wm: "lastEventTime a = Some (Num w)" "w \<noteq> 0"
    and tm: "eventTimeOf now p = Num n" "n \<le> w"
  shows "processWebhook usp now (JObject p) accs = accs"
proof (cases "event_type p")
  case None
  then show ?thesis by (simp add: processWebhook_def)
next
  case (Some e)
  have "handleEvent usp e p (Num n) a = a" using wm tm(2) by (rule handleEvent_stale)
  then have "update_first (\<lambda>acc. Some (deviceId acc) = device_id p)
               (handleEvent usp e p (Num n)) accs = accs"
    using dev by (intro update_first_same [where a = a]) simp_all
  then show ?thesis using Some tm(1) by (simp add: processWebhook_def)
qed

text \<open>
  An event with a non-empty type, for a known device, whose time is a number other than 0
  and exceeds the device's watermark (or is the device's first: no watermark is set yet):
  the handler sets \<open>lastEventTime\<close> to the event time before it dispatches on the event
  type. When the event changes no state (an unknown type, \<^verbatim>\<open>device.tampered\<close>,
  \<^verbatim>\<open>lock.access_denied\<close>, a door event for a device without door-sensor support, a battery
  event with a falsy level), the watermark is all that changes, and every later event for
  that device with a smaller or equal time is discarded.
\<close>

lemma watermark_advances_off_epoch:
  assumes ev: "event_type p = Some e" "e \<noteq> []"
    and dev: "find (\<lambda>acc. Some (deviceId acc) = device_id p) accs = Some a"
    and tm: "eventTimeOf now p = Num n" "n \<noteq> 0"
    and newer: "lastEventTime a = None \<or> (\<exists>w. lastEventTime a = Some (Num w) \<and> w < n)"
  shows
    "processWebhook usp now (JObject p) accs
       = update_first (\<lambda>acc. Some (deviceId acc) = device_id p)
           (\<lambda>acc. dispatchEvent usp e p (Num n) (acc\<lparr>lastEventTime := Some (Num n)\<rparr>)) accs \<and>
     (e \<notin> {''lock.locked'', ''lock.unlocked'', ''device.connected'', ''device.disconnected''} \<and>
      (e \<in> {''device.low_battery'', ''device.battery_status_changed''} \<longrightarrow>
         payload_battery_level p = None \<or> payload_battery_level p = Some (Finite 0)) \<and>
      (e \<in> {''device.door_opened'', ''device.door_closed''} \<longrightarrow> \<not> supportsDoorSensor a)
      \<longrightarrow>
        processWebhook usp now (JObject p) accs
          = update_first (\<lambda>acc. Some (deviceId acc) = device_id p)
              (\<lambda>acc. acc\<lparr>lastEventTime := Some (Num n)\<rparr>) accs \<and>
        (\<forall>p' now' n'.
           device_id p' = device_id p \<and> eventTimeOf now' p' = Num n' \<and> n' \<le> n \<longrightarrow>
           processWebhook usp now' (JObject p') (processWebhook usp now (JObject p) accs)
             = processWebhook usp now (JObject p) accs))"
proof -
  let ?P = "\<lambda>acc. Some (deviceId acc) = device_id p"
  let ?set = "\<lambda>acc. acc\<lparr>lastEventTime := Some (Num n)\<rparr>"
  have pw: "processWebhook usp now (JObject p) accs
              = update_first ?P (handleEvent usp e p (Num n)) accs"
    using ev tm by (simp add: processWebhook_def)
  have first: "processWebhook usp now (JObject p) accs
       = update_first ?P (\<lambda>acc. dispatchEvent usp e p (Num n) (?set acc)) accs"
    unfolding pw using dev handleEvent_fresh [OF newer] by (rule update_first_cong)
  have second: "processWebhook usp now (JObject p) accs = update_first ?P ?set accs \<and>
        (\<forall>p' now' n'.
           device_id p' = device_id p \<and> eventTimeOf now' p' = Num n' \<and> n' \<le> n \<longrightarrow>
           processWebhook usp now' (JObject p') (processWebhook usp now (JObject p) accs)
             = processWebhook usp now (JObject p) accs)"
    if noop: "e \<notin> {''lock.locked'', ''lock.unlocked'', ''device.connected'', ''device.disconnected''}"
      "e \<in> {''device.low_battery'', ''device.battery_status_changed''} \<longrightarrow>
         payload_battery_level p = None \<or> payload_battery_level p = Some (Finite 0)"
      "e \<in> {''device.door_opened'', ''device.door_closed''} \<longrightarrow> \<not> supportsDoorSensor a"
  proof -
    have "dispatchEvent usp e p (Num n) (?set a) = ?set a"
      using noop by (intro dispatchEvent_noop) simp_all
    then have only: "processWebhook usp now (JObject p) accs = update_first ?P ?set accs"
      unfolding first using dev by (intro update_first_cong [where a = a]) simp_all
    have Pa: "?P a" using dev by (auto dest: find_Some_iff [THEN iffD1])
    have found: "find ?P (update_first ?P ?set accs) = Some (?set a)"
      using dev Pa by (intro find_update_first) simp_all
    have later: "processWebhook usp now' (JObject p') (update_first ?P ?set accs)
                   = update_first ?P ?set accs"
      if l: "device_id p' = device_id p" "eventTimeOf now' p' = Num n'" "n' \<le> n" for p' now' n'
    proof -
      have "find (\<lambda>acc. Some (deviceId acc) = device_id p') (update_first ?P ?set accs)
              = Some (?set a)"
        using found l(1) by simp
      moreover have "lastEventTime (?set a) = Some (Num n)" by simp
      ultimately show ?thesis using tm(2) l(2) l(3) by (rule stale_event_discarded)
    qed
    show ?thesis using only later by simp
  qed
  show ?thesis
  proof (rule conjI [OF first], rule impI, elim conjE)
    assume "e \<notin> {''lock.locked'', ''lock.unlocked'', ''device.connected'', ''device.disconnected''}"
      "e \<in> {''device.low_battery'', ''device.battery_status_changed''} \<longrightarrow>
         payload_battery_level p = None \<or> payload_battery_level p = Some (Finite 0)"
      "e \<in> {''device.door_opened'', ''device.door_closed''} \<longrightarrow> \<not> supportsDoorSensor a"
    then show "processWebhook usp now (JObject p) accs
          = update_first (\<lambda>acc. Some (deviceId acc) = device_id p)
              (\<lambda>acc. acc\<lparr>lastEventTime := Some (Num n)\<rparr>) accs \<and>
        (\<forall>p' now' n'.
           device_id p' = device_id p \<and> eventTimeOf now' p' = Num n' \<and> n' \<le> n \<longrightarrow>
           processWebhook usp now' (JObject p') (processWebhook usp now (JObject p) accs)
             = processWebhook usp now (JObject p) accs)"
      by (rule second)
  qed
qed

text \<open>
  The lemma at a door event for a device without a door sensor, followed by an older
  \<^verbatim>\<open>lock.unlocked\<close>, which is discarded.
\<close>

lemma watermark_advances_example:
  "processWebhook (updateStateOnly 0) 2500
      (JObject (sample_event ''device.door_opened'' ''d1'' (Num 2000))) [sample_accessory ''d1'' False]
     = [(sample_accessory ''d1'' False)\<lparr>lastEventTime := Some (Num 2000)\<rparr>] \<and>
   processWebhook (updateStateOnly 0) 2600 (JObject (sample_event ''lock.unlocked'' ''d1'' (Num 1500)))
      [(sample_accessory ''d1'' False)\<lparr>lastEventTime := Some (Num 2000)\<rparr>]
     = [(sample_accessory ''d1'' False)\<lparr>lastEventTime := Some (Num 2000)\<rparr>]"
  by (simp add: processWebhook_def sample_event_def sample_accessory_def eventTimeOf_def
      handleEvent_def dispatchEvent_def)

text \<open>
  C10: the claim has every event that exceeds the watermark advance it, so that a later
  event with a smaller or equal time is discarded; the comment in \<^verbatim>\<open>processWebhook\<close> says
  the same (``check if this event is newer than the last processed event''). The test
  is \<^verbatim>\<open>accessory.lastEventTime && eventTime <= accessory.lastEventTime\<close>, which takes a
  watermark of 0 for no watermark. A device without a watermark receives a
  \<^verbatim>\<open>device.tampered\<close> event whose \<^verbatim>\<open>occurred_at\<close> is the epoch: the watermark becomes 0 and
  nothing else changes. A \<^verbatim>\<open>lock.unlocked\<close> event with the same time then arrives: it is
  not discarded but handed to the update function, whatever that function is. With
  event times of 1 ms in place of 0 the second event is discarded.
\<close>

theorem epoch_event_not_discarded:
  "processWebhook usp now (JObject (sample_event ''device.tampered'' ''d1'' (Num 0)))
      [sample_accessory ''d1'' False]
     = [(sample_accessory ''d1'' False)\<lparr>lastEventTime := Some (Num 0)\<rparr>] \<and>
   processWebhook usp later (JObject (sample_event ''lock.unlocked'' ''d1'' (Num 0)))
      [(sample_accessory ''d1'' False)\<lparr>lastEventTime := Some (Num 0)\<rparr>]
     = [usp (no_fields\<lparr>locked := Some False\<rparr>) Webhook (Num 0)
          ((sample_accessory ''d1'' False)\<lparr>lastEventTime := Some (Num 0)\<rparr>)] \<and>
   processWebhook usp now (JObject (sample_event ''device.tampered'' ''d1'' (Num 1)))
      [sample_accessory ''d1'' False]
     = [(sample_accessory ''d1'' False)\<lparr>lastEventTime := Some (Num 1)\<rparr>] \<and>
   processWebhook usp later (JObject (sample_event ''lock.unlocked'' ''d1'' (Num 1)))
      [(sample_accessory ''d1'' False)\<lparr>lastEventTime := Some (Num 1)\<rparr>]
     = [(sample_accessory ''d1'' False)\<lparr>lastEventTime := Some (Num 1)\<rparr>]"
  by (simp add: processWebhook_def sample_event_def sample_accessory_def eventTimeOf_def
      handleEvent_def dispatchEvent_def)

text \<open>
  The theorem with the update function of the earlier revision: the second event at the
  epoch unlocks the accessory.
\<close>

theorem epoch_event_not_discarded_witness:
  "processWebhook (updateStateOnly 0) 5 (JObject (sample_event ''device.tampered'' ''d1'' (Num 0)))
      [sample_accessory ''d1'' False]
     = [(sample_accessory ''d1'' False)\<lparr>lastEventTime := Some (Num 0)\<rparr>] \<and>
   processWebhook (updateStateOnly 0) 6 (JObject (sample_event ''lock.unlocked'' ''d1'' (Num 0)))
      [(sample_accessory ''d1'' False)\<lparr>lastEventTime := Some (Num 0)\<rparr>]
     = [(sample_accessory ''d1'' False)\<lparr>lastEventTime := Some (Num 0), isLocked := False,
           hkLockCurrentState := False, hkLockTargetState := False\<rparr>]"
proof -
  have "updateStateOnly 0 (no_fields\<lparr>locked := Some False\<rparr>) Webhook (Num 0)
          ((sample_accessory ''d1'' False)\<lparr>lastEventTime := Some (Num 0)\<rparr>)
        = (sample_accessory ''d1'' False)\<lparr>lastEventTime := Some (Num 0), isLocked := False,
             hkLockCurrentState := False, hkLockTargetState := False\<rparr>"
    by (simp add: updateStateOnly_def updateState_def updateLock_def updateBattery_def
        updateDoor_def no_fields_def sample_accessory_def)
  then show ?thesis
    using epoch_event_not_discarded [of "updateStateOnly 0" 5 6] by simp
qed

section \<open>Stale updates\<close>

text \<open>
  C1: the claim has \<open>lastEventTime\<close> never decrease and every update that is no newer than
  an earlier one discarded; \<^verbatim>\<open>processWebhook\<close> means to (``check if this event is newer
  than the last processed event'') and misses where the watermark is falsy or the
  event time is no number. A device receives an event that occurred at 1000, then an
  event whose \<^verbatim>\<open>occurred_at\<close> is no date (its time is \<^verbatim>\<open>NaN\<close>, and \<^verbatim>\<open>NaN <= 1000\<close> is
  false): the watermark becomes \<^verbatim>\<open>NaN\<close>. A \<^verbatim>\<open>lock.unlocked\<close> event that occurred at 900 then
  arrives: it is older than the first event, and yet it is handed to the update function
  (whatever that function is) with the watermark lowered to 900. Likewise after an
  event at the epoch: the watermark 0 is falsy, and an event 1 ms older lowers it to -1.
  Without the event that is no date, the event at 900 is discarded.
\<close>

theorem stale_event_applied:
  "processWebhook usp t1 (JObject (sample_event ''device.tampered'' ''d1'' (Num 1000)))
      [sample_accessory ''d1'' False]
     = [(sample_accessory ''d1'' False)\<lparr>lastEventTime := Some (Num 1000)\<rparr>] \<and>
   processWebhook usp t2 (JObject (sample_event ''device.tampered'' ''d1'' NaN))
      [(sample_accessory ''d1'' False)\<lparr>lastEventTime := Some (Num 1000)\<rparr>]
     = [(sample_accessory ''d1'' False)\<lparr>lastEventTime := Some NaN\<rparr>] \<and>
   processWebhook usp t3 (JObject (sample_event ''lock.unlocked'' ''d1'' (Num 900)))
      [(sample_accessory ''d1'' False)\<lparr>lastEventTime := Some NaN\<rparr>]
     = [usp (no_fields\<lparr>locked := Some False\<rparr>) Webhook (Num 900)
          ((sample_accessory ''d1'' False)\<lparr>lastEventTime := Some (Num 900)\<rparr>)] \<and>
   processWebhook usp t3 (JObject (sample_event ''lock.unlocked'' ''d1'' (Num 900)))
      [(sample_accessory ''d1'' False)\<lparr>lastEventTime := Some (Num 1000)\<rparr>]
     = [(sample_accessory ''d1'' False)\<lparr>lastEventTime := Some (Num 1000)\<rparr>] \<and>
   processWebhook usp t3 (JObject (sample_event ''device.tampered'' ''d1'' (Num (- 1))))
      [(sample_accessory ''d1'' False)\<lparr>lastEventTime := Some (Num 0)\<rparr>]
     = [(sample_accessory ''d1'' False)\<lparr>lastEventTime := Some (Num (- 1))\<rparr>]"
  by (simp add: processWebhook_def sample_event_def sample_accessory_def eventTimeOf_def
      handleEvent_def dispatchEvent_def)

text \<open>
  The theorem with the update function of the earlier revision: the event that occurred
  at 900 unlocks the accessory after the event that occurred at 1000 was processed.
\<close>

theorem stale_event_applied_witness:
  "processWebhook (updateStateOnly 0) 1001 (JObject (sample_event ''device.tampered'' ''d1'' (Num 1000)))
      [sample_accessory ''d1'' False]
     = [(sample_accessory ''d1'' False)\<lparr>lastEventTime := Some (Num 1000)\<rparr>] \<and>
   processWebhook (updateStateOnly 0) 1002 (JObject (sample_event ''device.tampered'' ''d1'' NaN))
      [(sample_accessory ''d1'' False)\<lparr>lastEventTime := Some (Num 1000)\<rparr>]
     = [(sample_accessory ''d1'' False)\<lparr>lastEventTime := Some NaN\<rparr>] \<and>
   processWebhook (updateStateOnly 0) 1003 (JObject (sample_event ''lock.unlocked'' ''d1'' (Num 900)))
      [(sample_accessory ''d1'' False)\<lparr>lastEventTime := Some NaN\<rparr>]
     = [(sample_accessory ''d1'' False)\<lparr>lastEventTime := Some (Num 900), isLocked := False,
           hkLockCurrentState := False, hkLockTargetState := False\<rparr>]"
proof -
  have "updateStateOnly 0 (no_fields\<lparr>locked := Some False\<rparr>) Webhook (Num 900)
          ((sample_accessory ''d1'' False)\<lparr>lastEventTime := Some (Num 900)\<rparr>)
        = (sample_accessory ''d1'' False)\<lparr>lastEventTime := Some (Num 900), isLocked := False,
             hkLockCurrentState := False, hkLockTargetState := False\<rparr>"
    by (simp add: updateStateOnly_def updateState_def updateLock_def updateBattery_def
        updateDoor_def no_fields_def sample_accessory_def)
  then show ?thesis
    using stale_event_applied [of "updateStateOnly 0" 1001 1002 1003] by simp
qed

section \<open>Webhook registration across restarts\<close>

text \<open>
  When every call to the remote service succeeds, the calls are these functions of the
  registry.
\<close>

lemma next_call_ok: "failures r = [] \<Longrightarrow> next_call r = (False, r)"
  by (simp add: next_call_def)

lemma listWebhooks_ok: "failures r = [] \<Longrightarrow> listWebhooks r = (Inr (webhooks r), r)"
  by (simp add: listWebhooks_def next_call_ok)

lemma deleteWebhook_ok:
  "failures r = [] \<Longrightarrow>
   deleteWebhook i r = (Inr True, r\<lparr>webhooks := filter (\<lambda>wh. webhook_id wh \<noteq> i) (webhooks r)\<rparr>)"
  by (simp add: deleteWebhook_def next_call_ok)

lemma createWebhook_ok:
  "failures r = [] \<Longrightarrow>
   createWebhook u evs r =
     (Inr \<lparr>webhook_id = next_id r, url = u, event_types = evs\<rparr>,
      r\<lparr>webhooks := webhooks r @ [\<lparr>webhook_id = next_id r, url = u, event_types = evs\<rparr>],
        next_id := Suc (next_id r)\<rparr>)"
  by (simp add: createWebhook_def next_call_ok Let_def)

lemma cleanupLoop_ok:
  "failures r = [] \<Longrightarrow>
   cleanupLoop base xs r =
     r\<lparr>webhooks := filter (\<lambda>wh. webhook_id wh \<notin> webhook_id ` {x \<in> set xs. targetsBase base x})
                       (webhooks r)\<rparr>"
proof (induction xs arbitrary: r)
  case Nil
  then show ?case by simp
next
  case (Cons x xs)
  show ?case
  proof (cases "targetsBase base x")
    case True
    let ?r1 = "r\<lparr>webhooks := filter (\<lambda>wh. webhook_id wh \<noteq> webhook_id x) (webhooks r)\<rparr>"
    have f: "failures ?r1 = []" using Cons.prems by simp
    have "cleanupLoop base (x # xs) r = cleanupLoop base xs ?r1"
      using True Cons.prems by (simp add: deleteWebhook_ok)
    also have "\<dots> = ?r1\<lparr>webhooks := filter (\<lambda>wh. webhook_id wh \<notin> webhook_id ` {y \<in> set xs. targetsBase base y})
                       (webhooks ?r1)\<rparr>"
      using Cons.IH [OF f] .
    also have "\<dots> = r\<lparr>webhooks := filter (\<lambda>wh. webhook_id wh \<notin> webhook_id ` {y \<in> set (x # xs). targetsBase base y})
                       (webhooks r)\<rparr>"
    proof -
      have "{y \<in> set (x # xs). targetsBase base y} = insert x {y \<in> set xs. targetsBase base y}"
        using True by auto
      then show ?thesis by (simp add: conj_commute)
    qed
    finally show ?thesis .
  next
    case False
    have "{y \<in> set (x # xs). targetsBase base y} = {y \<in> set xs. targetsBase base y}"
      using False by auto
    then show ?thesis using False Cons by simp
  qed
qed

lemma cleanupWebhook_ok:
  assumes "failures r = []"
  shows "cleanupWebhook srv r =
     r\<lparr>webhooks := filter (\<lambda>wh. webhook_id wh \<notin> webhook_id ` {x \<in> set (webhooks r). targetsBase (config_url srv) x})
                       (webhooks r)\<rparr>"
  using assms by (simp add: cleanupWebhook_def listWebhooks_ok cleanupLoop_ok)

lemma cleanupWebhook_swept:
  assumes "failures r = []"
  shows "filter (targetsBase (config_url srv)) (webhooks (cleanupWebhook srv r)) = []"
    and "failures (cleanupWebhook srv r) = []"
    and "set (webhooks (cleanupWebhook srv r)) \<subseteq> set (webhooks r)"
  using assms by (auto simp: cleanupWebhook_ok filter_empty_conv)

lemma registerWebhook_adopts:
  assumes "failures r = []"
    and "find (\<lambda>wh. webhookUrl srv \<noteq> None \<and> url wh = webhookUrl srv) (webhooks r) = Some wh"
  shows "registerWebhook accs (srv, r) = (srv\<lparr>webhookId := Some (webhook_id wh)\<rparr>, r)"
  using assms by (simp add: registerWebhook_def listWebhooks_ok)

lemma registerWebhook_creates:
  assumes f: "failures r = []"
    and nf: "find (\<lambda>wh. webhookUrl srv \<noteq> None \<and> url wh = webhookUrl srv) (webhooks r) = None"
  shows "registerWebhook accs (srv, r) =
           (srv\<lparr>webhookId := Some (next_id r)\<rparr>,
            (cleanupWebhook srv r)
              \<lparr>webhooks := webhooks (cleanupWebhook srv r) @
                  [\<lparr>webhook_id = next_id r, url = webhookUrl srv,
                    event_types = getSupportedWebhookEvents accs\<rparr>],
                next_id := Suc (next_id r)\<rparr>)"
proof -
  have c: "failures (cleanupWebhook srv r) = []" "next_id (cleanupWebhook srv r) = next_id r"
    using f by (simp_all add: cleanupWebhook_ok)
  show ?thesis using f nf c
    by (simp add: registerWebhook_def listWebhooks_ok createWebhook_ok)
qed

lemma registerWebhook_frame:
  assumes "failures r = []"
  shows "(\<exists>i. fst (registerWebhook accs (s, r)) = s\<lparr>webhookId := i\<rparr>) \<and>
         failures (snd (registerWebhook accs (s, r))) = []"
proof (cases "find (\<lambda>wh. webhookUrl s \<noteq> None \<and> url wh = webhookUrl s) (webhooks r)")
  case None
  show ?thesis
    unfolding registerWebhook_creates [OF assms None]
    using cleanupWebhook_swept(2) [OF assms] by auto
next
  case (Some wh)
  show ?thesis
    unfolding registerWebhook_adopts [OF assms Some] using assms by auto
qed

lemma targetsBase_new:
  "b \<noteq> [] \<Longrightarrow> targetsBase (Some b) \<lparr>webhook_id = i, url = Some (b @ t), event_types = evs\<rparr>"
  by (simp add: targetsBase_def)

lemma registerWebhook_fresh:
  assumes f: "failures r = []" and cfg: "config_url s = Some b" and b: "b \<noteq> []"
    and u: "webhookUrl s = Some (b @ t)"
    and none: "filter (targetsBase (Some b)) (webhooks r) = []"
  shows "\<exists>wh. filter (targetsBase (Some b)) (webhooks (snd (registerWebhook accs (s, r)))) = [wh] \<and>
           url wh = Some (b @ t) \<and>
           webhookId (fst (registerWebhook accs (s, r))) = Some (webhook_id wh)"
proof -
  have nf: "find (\<lambda>wh. webhookUrl s \<noteq> None \<and> url wh = webhookUrl s) (webhooks r) = None"
  proof (rule ccontr)
    assume "find (\<lambda>wh. webhookUrl s \<noteq> None \<and> url wh = webhookUrl s) (webhooks r) \<noteq> None"
    then obtain wh where "wh \<in> set (webhooks r)" "url wh = Some (b @ t)"
      using u by (auto simp: find_None_iff)
    then have "wh \<in> set (filter (targetsBase (Some b)) (webhooks r))"
      using b by (simp add: targetsBase_def)
    then show False using none by simp
  qed
  have sw: "filter (targetsBase (Some b)) (webhooks (cleanupWebhook s r)) = []"
    using cleanupWebhook_swept(1) [OF f, of s] cfg by simp
  show ?thesis
    unfolding registerWebhook_creates [OF f nf]
    using sw u b by (simp add: targetsBase_new)
qed

lemma start_enabled:
  assumes en: "config_enabled srv" and cfg: "config_url srv = Some b" and b: "b \<noteq> []"
  shows "start u k lok accs (srv, r) =
     (if lok
      then (None, registerWebhook accs
              (srv\<lparr>path := Some (''/'' @ u), secret := Some (hex_encode k),
                   webhookUrl := Some (b @ ''/'' @ u), listening := True\<rparr>, r))
      else (Some ListenError,
            srv\<lparr>path := Some (''/'' @ u), secret := Some (hex_encode k),
                 webhookUrl := Some (b @ ''/'' @ u), listening := True\<rparr>, r))"
  using assms by (simp add: start_def Let_def)

lemma start_frame:
  assumes en: "config_enabled srv" and cfg: "config_url srv = Some b" and b: "b \<noteq> []"
    and f: "failures r = []"
  shows "path (fst (snd (start u k lok accs (srv, r)))) = Some (''/'' @ u) \<and>
         secret (fst (snd (start u k lok accs (srv, r)))) = Some (hex_encode k) \<and>
         config_enabled (fst (snd (start u k lok accs (srv, r)))) \<and>
         config_url (fst (snd (start u k lok accs (srv, r)))) = Some b \<and>
         failures (snd (snd (start u k lok accs (srv, r)))) = []"
proof (cases lok)
  case False
  then show ?thesis using assms by (simp add: start_enabled)
next
  case True
  let ?s1 = "srv\<lparr>path := Some (''/'' @ u), secret := Some (hex_encode k),
                   webhookUrl := Some (b @ ''/'' @ u), listening := True\<rparr>"
  from registerWebhook_frame [OF f, of accs ?s1]
  obtain i where "fst (registerWebhook accs (?s1, r)) = ?s1\<lparr>webhookId := i\<rparr>"
    and "failures (snd (registerWebhook accs (?s1, r))) = []" by blast
  then show ?thesis using assms True by (simp add: start_enabled)
qed

lemma stop_swept:
  assumes cfg: "config_url srv = Some b" and f: "failures r = []"
  shows "filter (targetsBase (Some b)) (webhooks (snd (stop (srv, r)))) = [] \<and>
         failures (snd (stop (srv, r))) = [] \<and>
         config_url (fst (stop (srv, r))) = Some b \<and>
         config_enabled (fst (stop (srv, r))) = config_enabled srv \<and>
         path (fst (stop (srv, r))) = None \<and> secret (fst (stop (srv, r))) = None \<and>
         webhookId (fst (stop (srv, r))) = None"
  using cleanupWebhook_swept(1,2) [OF f, of srv] cfg by (simp add: stop_def)

lemma start_fresh:
  assumes en: "config_enabled srv" and cfg: "config_url srv = Some b" and b: "b \<noteq> []"
    and f: "failures r = []" and none: "filter (targetsBase (Some b)) (webhooks r) = []"
  shows "length (filter (targetsBase (Some b)) (webhooks (snd (snd (start u k lok accs (srv, r)))))) \<le> 1 \<and>
         (lok \<longrightarrow> (\<exists>wh. filter (targetsBase (Some b))
                             (webhooks (snd (snd (start u k lok accs (srv, r))))) = [wh] \<and>
                        url wh = Some (b @ ''/'' @ u) \<and>
                        webhookId (fst (snd (start u k lok accs (srv, r)))) = Some (webhook_id wh)))"
proof (cases lok)
  case False
  then show ?thesis using assms by (simp add: start_enabled)
next
  case True
  let ?s1 = "srv\<lparr>path := Some (''/'' @ u), secret := Some (hex_encode k),
                   webhookUrl := Some (b @ ''/'' @ u), listening := True\<rparr>"
  have "config_url ?s1 = Some b" "webhookUrl ?s1 = Some (b @ ''/'' @ u)" using cfg by simp_all
  from registerWebhook_fresh [OF f this(1) b this(2) none, of accs]
  obtain wh where wh: "filter (targetsBase (Some b)) (webhooks (snd (registerWebhook accs (?s1, r)))) = [wh]"
    "url wh = Some (b @ ''/'' @ u)"
    "webhookId (fst (registerWebhook accs (?s1, r))) = Some (webhook_id wh)" by blast
  have st: "start u k lok accs (srv, r) = (None, registerWebhook accs (?s1, r))"
    using True assms by (simp add: start_enabled)
  show ?thesis unfolding st using wh by simp
qed

text \<open>
  C7, as stated, fails when a deletion fails, which \<^verbatim>\<open>cleanupWebhook\<close> catches and only
  logs. The registry is empty; the first start creates a subscription; at the stop and at
  the second start the deletion of that subscription fails (the fifth and the eighth call
  to the service); the second start still creates its own. Two subscriptions of the base
  URL are left.
\<close>

theorem webhook_restart_failed_delete_counterexample:
  "map url (webhooks (snd (snd
      (start ''u2'' (replicate 32 2) True ([] :: accessory list)
        (stop (snd (start ''u1'' (replicate 32 1) True ([] :: accessory list)
           (sample_server,
            sample_remote [] [False, False, False, False, True, False, False, True, False]))))))))
     = [Some ''https://example.org/u1'', Some ''https://example.org/u2''] \<and>
   length (filter (targetsBase (Some ''https://example.org''))
     (webhooks (snd (snd
      (start ''u2'' (replicate 32 2) True ([] :: accessory list)
        (stop (snd (start ''u1'' (replicate 32 1) True ([] :: accessory list)
           (sample_server,
            sample_remote [] [False, False, False, False, True, False, False, True, False]))))))))) = 2"
  by (simp add: start_def stop_def registerWebhook_def cleanupWebhook_def listWebhooks_def
      createWebhook_def deleteWebhook_def next_call_def sample_server_def sample_remote_def
      targetsBase_def Let_def)

text \<open>
  C7 (amended): for a server with webhooks enabled and a non-empty base URL, as long as
  the calls to the remote service succeed: every start sets the path and the secret from
  the random values it draws; registration adopts an existing subscription only when its
  URL equals the newly computed URL (and then changes nothing remotely), and otherwise
  removes every subscription that targets the base URL and creates one subscription for
  the new URL; a stop leaves no subscription that targets the base URL; so after start,
  stop, start at most one subscription targets the base URL, exactly one (the one for the
  new URL, whose identifier the server holds) when the listener started. The state after
  the cycle meets the same conditions, so the same holds after every further stop and
  start.
\<close>

theorem webhook_restart_one_subscription:
  assumes en: "config_enabled srv" and cfg: "config_url srv = Some b" and b: "b \<noteq> []"
    and f: "failures r = []"
  shows
    "(\<forall>wh. find (\<lambda>wh. webhookUrl srv \<noteq> None \<and> url wh = webhookUrl srv) (webhooks r) = Some wh \<longrightarrow>
        url wh = webhookUrl srv \<and>
        registerWebhook accs (srv, r) = (srv\<lparr>webhookId := Some (webhook_id wh)\<rparr>, r)) \<and>
     (find (\<lambda>wh. webhookUrl srv \<noteq> None \<and> url wh = webhookUrl srv) (webhooks r) = None \<longrightarrow>
        filter (targetsBase (config_url srv)) (webhooks (cleanupWebhook srv r)) = [] \<and>
        (\<exists>new. url new = webhookUrl srv \<and>
           webhooks (snd (registerWebhook accs (srv, r))) = webhooks (cleanupWebhook srv r) @ [new] \<and>
           webhookId (fst (registerWebhook accs (srv, r))) = Some (webhook_id new))) \<and>
     path (fst (snd (start u1 k1 ok1 accs (srv, r)))) = Some (''/'' @ u1) \<and>
     secret (fst (snd (start u1 k1 ok1 accs (srv, r)))) = Some (hex_encode k1) \<and>
     filter (targetsBase (Some b))
        (webhooks (snd (stop (snd (start u1 k1 ok1 accs (srv, r)))))) = [] \<and>
     path (fst (snd (start u2 k2 ok2 accs (stop (snd (start u1 k1 ok1 accs (srv, r)))))))
        = Some (''/'' @ u2) \<and>
     secret (fst (snd (start u2 k2 ok2 accs (stop (snd (start u1 k1 ok1 accs (srv, r)))))))
        = Some (hex_encode k2) \<and>
     length (filter (targetsBase (Some b))
        (webhooks (snd (snd (start u2 k2 ok2 accs (stop (snd (start u1 k1 ok1 accs (srv, r))))))))) \<le> 1 \<and>
     (ok2 \<longrightarrow>
        (\<exists>wh. filter (targetsBase (Some b))
            (webhooks (snd (snd (start u2 k2 ok2 accs (stop (snd (start u1 k1 ok1 accs (srv, r)))))))) = [wh] \<and>
          url wh = Some (b @ ''/'' @ u2) \<and>
          webhookId (fst (snd (start u2 k2 ok2 accs (stop (snd (start u1 k1 ok1 accs (srv, r)))))))
            = Some (webhook_id wh))) \<and>
     config_enabled (fst (snd (start u2 k2 ok2 accs (stop (snd (start u1 k1 ok1 accs (srv, r))))))) \<and>
     config_url (fst (snd (start u2 k2 ok2 accs (stop (snd (start u1 k1 ok1 accs (srv, r)))))))
        = Some b \<and>
     failures (snd (snd (start u2 k2 ok2 accs (stop (snd (start u1 k1 ok1 accs (srv, r))))))) = []"
proof -
  let ?first = "start u1 k1 ok1 accs (srv, r)"
  obtain sA rA where A: "snd ?first = (sA, rA)" by (cases "snd ?first")
  have fA: "path sA = Some (''/'' @ u1)" "secret sA = Some (hex_encode k1)" "config_enabled sA"
    "config_url sA = Some b" "failures rA = []"
    using start_frame [OF en cfg b f, of u1 k1 ok1 accs] A by simp_all
  obtain sB rB where B: "stop (sA, rA) = (sB, rB)" by (cases "stop (sA, rA)")
  have fB: "filter (targetsBase (Some b)) (webhooks rB) = []" "failures rB = []"
    "config_url sB = Some b" "config_enabled sB"
    using stop_swept [OF fA(4) fA(5)] B fA(3) by simp_all
  let ?second = "start u2 k2 ok2 accs (sB, rB)"
  note fr = start_frame [OF fB(4) fB(3) b fB(2), of u2 k2 ok2 accs]
  note fresh = start_fresh [OF fB(4) fB(3) b fB(2) fB(1), of u2 k2 ok2 accs]
  have adopt: "url wh = webhookUrl srv \<and>
        registerWebhook accs (srv, r) = (srv\<lparr>webhookId := Some (webhook_id wh)\<rparr>, r)"
    if "find (\<lambda>wh. webhookUrl srv \<noteq> None \<and> url wh = webhookUrl srv) (webhooks r) = Some wh" for wh
    using registerWebhook_adopts [OF f that] that by (auto simp: find_Some_iff)
  have create: "filter (targetsBase (config_url srv)) (webhooks (cleanupWebhook srv r)) = [] \<and>
        (\<exists>new. url new = webhookUrl srv \<and>
           webhooks (snd (registerWebhook accs (srv, r))) = webhooks (cleanupWebhook srv r) @ [new] \<and>
           webhookId (fst (registerWebhook accs (srv, r))) = Some (webhook_id new))"
    if "find (\<lambda>wh. webhookUrl srv \<noteq> None \<and> url wh = webhookUrl srv) (webhooks r) = None"
  proof -
    let ?new = "\<lparr>webhook_id = next_id r, url = webhookUrl srv,
                 event_types = getSupportedWebhookEvents accs\<rparr>"
    have "url ?new = webhookUrl srv \<and>
           webhooks (snd (registerWebhook accs (srv, r))) = webhooks (cleanupWebhook srv r) @ [?new] \<and>
           webhookId (fst (registerWebhook accs (srv, r))) = Some (webhook_id ?new)"
      using registerWebhook_creates [OF f that, of accs] by simp
    then have "\<exists>new. url new = webhookUrl srv \<and>
           webhooks (snd (registerWebhook accs (srv, r))) = webhooks (cleanupWebhook srv r) @ [new] \<and>
           webhookId (fst (registerWebhook accs (srv, r))) = Some (webhook_id new)"
      by (rule exI)
    then show ?thesis using cleanupWebhook_swept(1) [OF f, of srv] by simp
  qed
  show ?thesis
    unfolding A B using adopt create fA fB fr fresh by simp
qed

text \<open>
  The theorem at a registry that holds a stale subscription of the base URL and one of
  another URL.
\<close>

theorem webhook_restart_one_subscription_witness:
  "config_enabled sample_server \<and> config_url sample_server = Some ''https://example.org'' \<and>
   ''https://example.org'' \<noteq> [] \<and> failures (sample_remote sample_webhooks []) = [] \<and>
   length (filter (targetsBase (Some ''https://example.org''))
     (webhooks (snd (snd
      (start ''u2'' (replicate 32 2) True ([] :: accessory list)
        (stop (snd (start ''u1'' (replicate 32 1) True ([] :: accessory list)
           (sample_server, sample_remote sample_webhooks []))))))))) \<le> 1 \<and>
   map url (webhooks (snd (snd
      (start ''u2'' (replicate 32 2) True ([] :: accessory list)
        (stop (snd (start ''u1'' (replicate 32 1) True ([] :: accessory list)
           (sample_server, sample_remote sample_webhooks []))))))))
     = [Some ''https://other.example/hook'', Some ''https://example.org/u2'']"
proof -
  have h1: "config_enabled sample_server" by (simp add: sample_server_def)
  have h2: "config_url sample_server = Some ''https://example.org''" by (simp add: sample_server_def)
  have h3: "''https://example.org'' \<noteq> []" by simp
  have h4: "failures (sample_remote sample_webhooks []) = []" by (simp add: sample_remote_def)
  note th = webhook_restart_one_subscription [OF h1 h2 h3 h4,
      of "[] :: accessory list" "''u1''" "replicate 32 1" True "''u2''" "replicate 32 2" True]
  have le: "length (filter (targetsBase (Some ''https://example.org''))
     (webhooks (snd (snd
      (start ''u2'' (replicate 32 2) True ([] :: accessory list)
        (stop (snd (start ''u1'' (replicate 32 1) True ([] :: accessory list)
           (sample_server, sample_remote sample_webhooks []))))))))) \<le> 1"
    using th by (elim conjE)
  have ev: "map url (webhooks (snd (snd
      (start ''u2'' (replicate 32 2) True ([] :: accessory list)
        (stop (snd (start ''u1'' (replicate 32 1) True ([] :: accessory list)
           (sample_server, sample_remote sample_webhooks []))))))))
     = [Some ''https://other.example/hook'', Some ''https://example.org/u2'']"
    by (simp add: start_def stop_def registerWebhook_def cleanupWebhook_def listWebhooks_def
      createWebhook_def deleteWebhook_def next_call_def sample_server_def sample_remote_def
      sample_webhooks_def targetsBase_def Let_def)
  show ?thesis using h1 h2 h4 le ev by simp
qed

section \<open>Lock and unlock commands\<close>

text \<open>
  C3: at most one remote command in flight per device. The code lets a caller that finds
  a command in progress await it, but not test the flag again afterwards. With three
  calls of \<^verbatim>\<open>setLockTargetState\<close>, the second and third arriving while the first command is in
  flight, both waiters go on when the first command's promise is fulfilled (the first
  caller, which awaited first, runs its \<^verbatim>\<open>finally\<close> before them); each sets the flag and
  issues its own remote call. Two remote calls are then in flight for the one device.
\<close>

theorem three_callers_two_remote_calls:
  "map_option remoteCallsInFlight
     (run [Request True, Request True, Request True, RemoteDone 0 RemoteSuccess, DelayElapsed 0,
           Resume 0, Resume 1, Resume 2] (idle a)) = Some 2 \<and>
   map_option callers
     (run [Request True, Request True, Request True, RemoteDone 0 RemoteSuccess, DelayElapsed 0,
           Resume 0, Resume 1, Resume 2] (idle a)) = Some [Returned, AwaitingOwn 1, AwaitingOwn 2] \<and>
   map_option commands
     (run [Request True, Request True, Request True, RemoteDone 0 RemoteSuccess, DelayElapsed 0,
           Resume 0, Resume 1, Resume 2] (idle a))
     = Some [Fulfilled, RemotePending True, RemotePending True]"
  by (simp add: idle_def startCommand_def finallyRelease_def remoteCallsInFlight_def)

text \<open>
The same run for a concrete accessory.
\<close>

theorem three_callers_two_remote_calls_witness:
  "map_option remoteCallsInFlight
     (run [Request True, Request True, Request True, RemoteDone 0 RemoteSuccess, DelayElapsed 0,
           Resume 0, Resume 1, Resume 2] (idle (sample_accessory ''d1'' False))) = Some 2"
  using three_callers_two_remote_calls [of "sample_accessory ''d1'' False"] by (elim conjE)

text \<open>
  With at most two calls the commands are serialised, in whatever order the callers go
  on: the invariant \<open>two_caller_inv\<close> holds in every state reached, and it leaves at most
  one remote call in flight. The defect above needs a third caller.
\<close>

lemma step_callers_length: "step e s = Some s1 \<Longrightarrow> length (callers s) \<le> length (callers s1)"
  by (cases e)
     (auto simp: startCommand_def finallyRelease_def Let_def
           split: if_splits option.splits command_phase.splits remote_outcome.splits caller.splits)

lemma short_list_cases:
  assumes "length xs \<le> 2"
  obtains "xs = []" | k where "xs = [k]" | k0 k1 where "xs = [k0, k1]"
  using assms by (cases xs; cases "tl xs"; cases "tl (tl xs)") auto

lemma inv_request:
  assumes inv: "two_caller_inv s" and st: "step (Request b) s = Some s1"
    and len: "length (callers s1) \<le> 2"
  shows "two_caller_inv s1"
proof -
  have l1: "length (callers s) \<le> 1"
    using st len by (auto simp: startCommand_def Let_def split: if_splits option.splits)
  then consider "callers s = []" | k where "callers s = [k]"
    by (cases "callers s"; cases "tl (callers s)") auto
  then show ?thesis
  proof cases
    case 1
    then have "commands s = []" "\<not> isCommandInProgress (lock s)"
      using inv by (auto simp: two_caller_inv_def)
    then show ?thesis using st 1
      by (auto simp: two_caller_inv_def startCommand_def Let_def)
  next
    case 2
    then have c: "length (commands s) = 1"
      and d: "(k = AwaitingOwn 0 \<and> isCommandInProgress (lock s) \<and> commandPromise s = Some 0) \<or>
          (exited k \<and> final_phase (commands s ! 0) \<and> \<not> isCommandInProgress (lock s))"
      using inv by (auto simp: two_caller_inv_def)
    from d show ?thesis
    proof
      assume "k = AwaitingOwn 0 \<and> isCommandInProgress (lock s) \<and> commandPromise s = Some 0"
      then show ?thesis using st 2 c
        by (auto simp: two_caller_inv_def Let_def)
    next
      assume "exited k \<and> final_phase (commands s ! 0) \<and> \<not> isCommandInProgress (lock s)"
      then show ?thesis using st 2 c
        by (auto simp: two_caller_inv_def startCommand_def Let_def exited_def nth_append)
    qed
  qed
qed

lemma inv_phase_change:
  assumes inv: "two_caller_inv s" and p: "p < length (commands s)"
    and nf: "\<not> final_phase (commands s ! p)" and len: "length (callers s) \<le> 2"
  shows "two_caller_inv (s\<lparr>commands := (commands s)[p := ph]\<rparr>)"
proof -
  from len consider "callers s = []" | k where "callers s = [k]" | k0 k1 where "callers s = [k0, k1]"
    by (rule short_list_cases)
  then show ?thesis
  proof cases
    case 1
    then show ?thesis using inv p by (auto simp: two_caller_inv_def)
  next
    case 2
    then show ?thesis using inv p nf by (auto simp: two_caller_inv_def)
  next
    case 3
    have "p \<noteq> 0" if "length (commands s) = 2"
    proof
      assume "p = 0"
      then have "\<not> final_phase (commands s ! 0)" using nf by simp
      moreover have "final_phase (commands s ! 0)"
        using that inv 3 by (auto simp: two_caller_inv_def)
      ultimately show False by simp
    qed
    then show ?thesis using inv p 3 by (auto simp: two_caller_inv_def)
  qed
qed

lemma inv_remote_done:
  assumes inv: "two_caller_inv s" and st: "step (RemoteDone p outcome) s = Some s1"
    and len: "length (callers s) \<le> 2"
  shows "two_caller_inv s1"
proof -
  from st obtain b where p: "p < length (commands s)" and ph: "commands s ! p = RemotePending b"
    by (auto split: if_splits command_phase.splits)
  have nf: "\<not> final_phase (commands s ! p)" using ph by (simp add: final_phase_def)
  show ?thesis
  proof (cases outcome)
    case RemoteSuccess
    then have "s1 = s\<lparr>lock := (lock s)\<lparr>isLocked := b, hkLockCurrentState := b,
                              hkLockTargetState := b\<rparr>,
                     commands := (commands s)[p := Settling]\<rparr>"
      using st p ph by simp
    moreover have "two_caller_inv (s\<lparr>commands := (commands s)[p := Settling]\<rparr>)"
      using inv p nf len by (rule inv_phase_change)
    ultimately show ?thesis by (simp add: two_caller_inv_def)
  next
    case RemoteFailure
    then have "s1 = s\<lparr>commands := (commands s)[p := Rejected]\<rparr>" using st p ph by simp
    then show ?thesis using inv_phase_change [OF inv p nf len] by simp
  next
    case CommandTimeout
    then have "s1 = s\<lparr>commands := (commands s)[p := Rejected]\<rparr>" using st p ph by simp
    then show ?thesis using inv_phase_change [OF inv p nf len] by simp
  qed
qed

lemma inv_delay:
  assumes inv: "two_caller_inv s" and st: "step (DelayElapsed p) s = Some s1"
    and len: "length (callers s) \<le> 2"
  shows "two_caller_inv s1"
proof -
  from st have p: "p < length (commands s)" and ph: "commands s ! p = Settling"
    and s1: "s1 = s\<lparr>commands := (commands s)[p := Fulfilled]\<rparr>"
    by (auto split: if_splits)
  have nf: "\<not> final_phase (commands s ! p)" using ph by (simp add: final_phase_def)
  show ?thesis unfolding s1 using inv p nf len by (rule inv_phase_change)
qed

lemma inv_resume:
  assumes inv: "two_caller_inv s" and st: "step (Resume c) s = Some s1"
    and len: "length (callers s) \<le> 2"
  shows "two_caller_inv s1"
proof -
  from len consider "callers s = []" | k where "callers s = [k]" | k0 k1 where "callers s = [k0, k1]"
    by (rule short_list_cases)
  then show ?thesis
  proof cases
    case 1
    then show ?thesis using st by simp
  next
    case 2
    then have c0: "c = 0" using st by (auto split: if_splits)
    have k: "length (commands s) = 1"
      "(k = AwaitingOwn 0 \<and> isCommandInProgress (lock s) \<and> commandPromise s = Some 0) \<or>
          (exited k \<and> final_phase (commands s ! 0) \<and> \<not> isCommandInProgress (lock s))"
      using inv 2 by (auto simp: two_caller_inv_def)
    from k(2) show ?thesis
    proof
      assume "k = AwaitingOwn 0 \<and> isCommandInProgress (lock s) \<and> commandPromise s = Some 0"
      then show ?thesis using st 2 c0 k(1)
        by (auto simp: two_caller_inv_def finallyRelease_def exited_def final_phase_def
              split: if_splits command_phase.splits)
    next
      assume "exited k \<and> final_phase (commands s ! 0) \<and> \<not> isCommandInProgress (lock s)"
      then show ?thesis using st 2 c0 by (auto simp: exited_def)
    qed
  next
    case 3
    have i: "length (commands s) \<le> 2" "\<forall>p b. k0 \<noteq> AwaitingPrevious p b"
      "\<forall>p b. k1 = AwaitingPrevious p b \<longrightarrow> p = 0 \<and> length (commands s) = 1"
      "length (commands s) = 2 \<longrightarrow> final_phase (commands s ! 0)"
      using inv 3 by (auto simp: two_caller_inv_def)
    have c: "c = 0 \<or> c = 1" using st 3 by (auto split: if_splits)
    then show ?thesis
    proof
      assume c0: "c = 0"
      show ?thesis
      proof (cases k0)
        case (AwaitingPrevious p b)
        then show ?thesis using i(2) by simp
      next
        case (AwaitingOwn p)
        then show ?thesis using st 3 c0 i
          by (auto simp: two_caller_inv_def finallyRelease_def
                split: if_splits command_phase.splits)
      next
        case Returned
        then show ?thesis using st 3 c0 by simp
      next
        case Threw
        then show ?thesis using st 3 c0 by simp
      qed
    next
      assume c1: "c = 1"
      show ?thesis
      proof (cases k1)
        case (AwaitingPrevious p b)
        then have p: "p = 0" "length (commands s) = 1" using i(3) by simp_all
        then show ?thesis using st 3 c1 AwaitingPrevious i(2)
          by (auto simp: two_caller_inv_def startCommand_def final_phase_def nth_append
                split: if_splits command_phase.splits)
      next
        case (AwaitingOwn p)
        then show ?thesis using st 3 c1 i
          by (auto simp: two_caller_inv_def finallyRelease_def
                split: if_splits command_phase.splits)
      next
        case Returned
        then show ?thesis using st 3 c1 by simp
      next
        case Threw
        then show ?thesis using st 3 c1 by simp
      qed
    qed
  qed
qed

lemma inv_step:
  assumes "two_caller_inv s" and "step e s = Some s1" and "length (callers s1) \<le> 2"
  shows "two_caller_inv s1"
proof -
  have len: "length (callers s) \<le> 2"
    using step_callers_length [OF assms(2)] assms(3) by simp
  show ?thesis
  proof (cases e)
    case (Request b)
    then show ?thesis using assms inv_request by simp
  next
    case (RemoteDone p outcome)
    then show ?thesis using assms len inv_remote_done by simp
  next
    case (DelayElapsed p)
    then show ?thesis using assms len inv_delay by simp
  next
    case (Resume c)
    then show ?thesis using assms len inv_resume by simp
  qed
qed

lemma inv_reachable:
  assumes "reachable s"
  shows "length (callers s) \<le> 2 \<Longrightarrow> two_caller_inv s"
  using assms
proof (induction rule: reachable.induct)
  case (reachable_idle a)
  show ?case by (simp add: two_caller_inv_def idle_def)
next
  case (reachable_step s e s1)
  have "length (callers s) \<le> 2"
    using step_callers_length [OF reachable_step.hyps(2)] reachable_step.prems by simp
  then have "two_caller_inv s" by (rule reachable_step.IH)
  then show ?case using reachable_step.hyps(2) reachable_step.prems by (rule inv_step)
qed

lemma inv_in_flight:
  assumes inv: "two_caller_inv s" and len: "length (callers s) \<le> 2"
  shows "remoteCallsInFlight s \<le> 1"
proof -
  have "length (commands s) \<le> 2" using inv len by (simp add: two_caller_inv_def)
  then consider "commands s = []" | c0 where "commands s = [c0]" | c0 c1 where "commands s = [c0, c1]"
    by (rule short_list_cases)
  then show ?thesis
  proof cases
    case 1
    then show ?thesis by (simp add: remoteCallsInFlight_def)
  next
    case 2
    then show ?thesis by (simp add: remoteCallsInFlight_def)
  next
    case 3
    then have "length (callers s) = 2" using inv len by (simp add: two_caller_inv_def)
    then obtain k0 k1 where "callers s = [k0, k1]"
      by (cases "callers s"; cases "tl (callers s)") auto
    then have "final_phase c0" using inv 3 by (auto simp: two_caller_inv_def)
    then show ?thesis using 3
      by (auto simp: remoteCallsInFlight_def final_phase_def)
  qed
qed

lemma two_callers_serialised:
  "reachable s \<and> length (callers s) \<le> 2 \<longrightarrow> remoteCallsInFlight s \<le> 1"
  using inv_reachable inv_in_flight by blast

lemma run_reachable: "reachable s \<Longrightarrow> run evs s = Some s1 \<Longrightarrow> reachable s1"
proof (induction evs arbitrary: s)
  case Nil
  then show ?case by simp
next
  case (Cons e evs)
  then obtain s2 where s2: "step e s = Some s2" "run evs s2 = Some s1"
    by (auto split: option.splits)
  then have "reachable s2" using Cons.prems(1) reachable_step by blast
  then show ?case using Cons.IH s2 by blast
qed

lemma two_callers_serialised_example:
  "\<exists>s. run [Request True, Request False, RemoteDone 0 RemoteSuccess, DelayElapsed 0, Resume 1]
          (idle (sample_accessory ''d1'' False)) = Some s \<and>
        reachable s \<and> length (callers s) \<le> 2 \<and>
        callers s = [AwaitingOwn 0, AwaitingOwn 1] \<and> remoteCallsInFlight s \<le> 1"
proof -
  let ?evs = "[Request True, Request False, RemoteDone 0 RemoteSuccess, DelayElapsed 0, Resume 1]"
  obtain s where s: "run ?evs (idle (sample_accessory ''d1'' False)) = Some s"
    and c: "callers s = [AwaitingOwn 0, AwaitingOwn 1]"
    by (simp add: idle_def startCommand_def)
  have r: "reachable s" using reachable_idle s by (rule run_reachable)
  have l: "length (callers s) \<le> 2" using c by simp
  have "remoteCallsInFlight s \<le> 1"
    using two_callers_serialised [of s] r l by simp
  then show ?thesis using s r l c by blast
qed

text \<open>
  A call that finds no command in progress sets the flag and issues the remote call in one
  uninterrupted run, and then awaits its own command.
\<close>

lemma request_starts_command:
  assumes "\<not> isCommandInProgress (lock s)"
  shows "\<exists>s1. step (Request shouldLock) s = Some s1 \<and>
           isCommandInProgress (lock s1) \<and>
           commandPromise s1 = Some (length (commands s)) \<and>
           length (callers s) < length (callers s1) \<and>
           callers s1 ! length (callers s) = AwaitingOwn (length (commands s)) \<and>
           length (commands s) < length (commands s1) \<and>
           commands s1 ! length (commands s) = RemotePending shouldLock"
  using assms by (simp add: startCommand_def Let_def)

lemma resume_owner_releases:
  assumes "step (Resume c) s = Some s1" and "callers s ! c = AwaitingOwn p"
  shows "\<not> isCommandInProgress (lock s1) \<and> commandPromise s1 = None \<and>
         (callers s1 ! c = Returned \<or> callers s1 ! c = Threw)"
  using assms
  by (auto simp: finallyRelease_def split: if_splits command_phase.splits)

lemma completion_releases:
  assumes c: "c < length (callers s)" and own: "callers s ! c = AwaitingOwn p"
    and p: "p < length (commands s)" and ph: "commands s ! p = RemotePending shouldLock"
  shows "\<exists>s1. run (completion outcome p c) s = Some s1 \<and>
           \<not> isCommandInProgress (lock s1) \<and> commandPromise s1 = None \<and>
           callers s1 ! c = (if outcome = RemoteSuccess then Returned else Threw)"
  using assms
  by (cases outcome) (simp_all add: finallyRelease_def)

lemma released_when_no_owner:
  assumes "reachable s"
  shows "(\<forall>c < length (callers s). \<forall>p. callers s ! c \<noteq> AwaitingOwn p) \<Longrightarrow>
         \<not> isCommandInProgress (lock s)"
  using assms
proof (induction rule: reachable.induct)
  case (reachable_idle a)
  then show ?case by (simp add: idle_def)
next
  case (reachable_step s e s1)
  show ?case
  proof (cases e)
    case (Request shouldLock)
    show ?thesis
    proof (cases "isCommandInProgress (lock s) \<and> commandPromise s \<noteq> None")
      case True
      then obtain q where q: "commandPromise s = Some q" by auto
      then have s1: "s1 = s\<lparr>callers := callers s @ [AwaitingPrevious q shouldLock]\<rparr>"
        using reachable_step.hyps(2) Request True by simp
      have "\<forall>c < length (callers s). \<forall>p. callers s ! c \<noteq> AwaitingOwn p"
      proof (intro allI impI)
        fix c p assume "c < length (callers s)"
        then have "callers s1 ! c = callers s ! c" "c < length (callers s1)"
          using s1 by (simp_all add: nth_append)
        then show "callers s ! c \<noteq> AwaitingOwn p" using reachable_step.prems by metis
      qed
      then have "\<not> isCommandInProgress (lock s)" using reachable_step.IH by simp
      then show ?thesis using True by simp
    next
      case False
      then have s1: "s1 = (startCommand shouldLock s)\<lparr>callers := callers s @ [AwaitingOwn (length (commands s))]\<rparr>"
        using reachable_step.hyps(2) Request by (auto simp: Let_def split: option.splits)
      have "callers s1 ! length (callers s) = AwaitingOwn (length (commands s))"
        "length (callers s) < length (callers s1)"
        using s1 by simp_all
      then show ?thesis using reachable_step.prems by metis
    qed
  next
    case (RemoteDone p outcome)
    then have "callers s1 = callers s" "isCommandInProgress (lock s1) = isCommandInProgress (lock s)"
      using reachable_step.hyps(2)
      by (auto split: if_splits command_phase.splits remote_outcome.splits)
    then show ?thesis using reachable_step.IH reachable_step.prems by simp
  next
    case (DelayElapsed p)
    then have "callers s1 = callers s" "isCommandInProgress (lock s1) = isCommandInProgress (lock s)"
      using reachable_step.hyps(2) by (auto split: if_splits)
    then show ?thesis using reachable_step.IH reachable_step.prems by simp
  next
    case (Resume c)
    then have c: "c < length (callers s)"
      using reachable_step.hyps(2) by (auto split: if_splits)
    show ?thesis
    proof (cases "callers s ! c")
      case (AwaitingPrevious p shouldLock)
      then consider
          (started) "s1 = (startCommand shouldLock s)\<lparr>callers := (callers s)[c := AwaitingOwn (length (commands s))]\<rparr>"
        | (threw) "s1 = s\<lparr>callers := (callers s)[c := Threw]\<rparr>"
        using reachable_step.hyps(2) Resume c
        by (auto split: if_splits command_phase.splits)
      then show ?thesis
      proof cases
        case started
        then have "callers s1 ! c = AwaitingOwn (length (commands s))" "c < length (callers s1)"
          using c by simp_all
        then show ?thesis using reachable_step.prems by metis
      next
        case threw
        have "\<forall>d < length (callers s). \<forall>q. callers s ! d \<noteq> AwaitingOwn q"
        proof (intro allI impI)
          fix d q assume d: "d < length (callers s)"
          show "callers s ! d \<noteq> AwaitingOwn q"
          proof (cases "d = c")
            case True
            then show ?thesis using AwaitingPrevious by simp
          next
            case False
            then have "callers s1 ! d = callers s ! d" "d < length (callers s1)"
              using threw d by simp_all
            then show ?thesis using reachable_step.prems by metis
          qed
        qed
        then have "\<not> isCommandInProgress (lock s)" using reachable_step.IH by simp
        then show ?thesis using threw by simp
      qed
    next
      case (AwaitingOwn p)
      then show ?thesis
        using resume_owner_releases [of c s s1 p] reachable_step.hyps(2) Resume by simp
    next
      case Returned
      then show ?thesis using reachable_step.hyps(2) Resume c by simp
    next
      case Threw
      then show ?thesis using reachable_step.hyps(2) Resume c by simp
    qed
  qed
qed

text \<open>
  C4: the flag is always released. Once a caller has set \<open>isCommandInProgress\<close> and
  issued the remote call, on every path (the remote call succeeds, it fails, or the
  15-second timeout wins the race) the command runs to its end and the caller's
  \<^verbatim>\<open>finally\<close> clears the flag and the stored promise before the caller returns (success) or
  throws (failure, timeout). Whenever a caller that awaits its own command goes on, the
  flag is cleared. And in every state reached from an idle accessory in which no caller
  awaits a command of its own, the flag is clear: no device stays excluded from
  updates.
\<close>

theorem command_flag_released:
  "(c < length (callers s) \<and> callers s ! c = AwaitingOwn p \<and>
    p < length (commands s) \<and> commands s ! p = RemotePending shouldLock \<longrightarrow>
      (\<exists>s1. run (completion outcome p c) s = Some s1 \<and>
         \<not> isCommandInProgress (lock s1) \<and> commandPromise s1 = None \<and>
         callers s1 ! c = (if outcome = RemoteSuccess then Returned else Threw))) \<and>
   (step (Resume c) s = Some s2 \<and> callers s ! c = AwaitingOwn p \<longrightarrow>
      \<not> isCommandInProgress (lock s2) \<and> commandPromise s2 = None \<and>
      (callers s2 ! c = Returned \<or> callers s2 ! c = Threw)) \<and>
   (reachable s \<and> (\<forall>d < length (callers s). \<forall>q. callers s ! d \<noteq> AwaitingOwn q) \<longrightarrow>
      \<not> isCommandInProgress (lock s))"
  using completion_releases [of c s p shouldLock outcome] resume_owner_releases [of c s s2 p]
    released_when_no_owner [of s]
  by blast

text \<open>
The theorem at a command that times out.
\<close>

theorem command_flag_released_witness:
  "step (Request True) (idle (sample_accessory ''d1'' False))
     = Some ((startCommand True (idle (sample_accessory ''d1'' False)))\<lparr>callers := [AwaitingOwn 0]\<rparr>) \<and>
   isCommandInProgress (lock ((startCommand True (idle (sample_accessory ''d1'' False)))\<lparr>callers := [AwaitingOwn 0]\<rparr>)) \<and>
   (0::nat) < length (callers ((startCommand True (idle (sample_accessory ''d1'' False)))\<lparr>callers := [AwaitingOwn 0]\<rparr>)) \<and>
   callers ((startCommand True (idle (sample_accessory ''d1'' False)))\<lparr>callers := [AwaitingOwn 0]\<rparr>) ! 0 = AwaitingOwn 0 \<and>
   commands ((startCommand True (idle (sample_accessory ''d1'' False)))\<lparr>callers := [AwaitingOwn 0]\<rparr>) ! 0 = RemotePending True \<and>
   (\<exists>s1. run (completion CommandTimeout 0 0)
            ((startCommand True (idle (sample_accessory ''d1'' False)))\<lparr>callers := [AwaitingOwn 0]\<rparr>) = Some s1 \<and>
         \<not> isCommandInProgress (lock s1) \<and> commandPromise s1 = None \<and> callers s1 ! 0 = Threw)"
proof -
  let ?s = "(startCommand True (idle (sample_accessory ''d1'' False)))\<lparr>callers := [AwaitingOwn 0]\<rparr>"
  have st: "step (Request True) (idle (sample_accessory ''d1'' False)) = Some ?s"
    by (simp add: idle_def startCommand_def)
  have h: "0 < length (callers ?s) \<and> callers ?s ! 0 = AwaitingOwn 0 \<and>
           0 < length (commands ?s) \<and> commands ?s ! 0 = RemotePending True"
    by (simp add: idle_def startCommand_def)
  have fl: "isCommandInProgress (lock ?s)" by (simp add: startCommand_def)
  from command_flag_released [of 0 ?s 0 True CommandTimeout, THEN conjunct1, rule_format, OF h]
  have "\<exists>s1. run (completion CommandTimeout 0 0) ?s = Some s1 \<and>
         \<not> isCommandInProgress (lock s1) \<and> commandPromise s1 = None \<and> callers s1 ! 0 = Threw"
    by simp
  then show ?thesis using st h fl by simp
qed

end
